theory Spec2Isabelle
  imports Main
begin

section \<open>Strings of the program\<close>

text \<open>
  A JavaScript string is a sequence of UTF-16 code units. The model uses \<open>string\<close>,
  whose characters are the code units U+0000 to U+00FF; on these the definitions below
  are the ones of the language: \<open>\w\<close> is the ASCII class \<open>[A-Za-z0-9_]\<close>, the line
  terminators that \<open>.\<close> refuses are line feed and carriage return, and the white space
  that \<open>trim\<close> and \<open>\s\<close> know is TAB, LF, VT, FF, CR, SPACE and NBSP.
\<close>

definition is_word_char :: "char \<Rightarrow> bool" where
  "is_word_char c \<longleftrightarrow>
     c \<in> set (''abcdefghijklmnopqrstuvwxyz'' @ ''ABCDEFGHIJKLMNOPQRSTUVWXYZ'' @ ''0123456789_'')"

definition is_line_terminator :: "char \<Rightarrow> bool" where
  "is_line_terminator c \<longleftrightarrow> c = CHR 0x0A \<or> c = CHR 0x0D"

definition is_space :: "char \<Rightarrow> bool" where
  "is_space c \<longleftrightarrow>
     c \<in> set [CHR 0x09, CHR 0x0A, CHR 0x0B, CHR 0x0C, CHR 0x0D, CHR 0x20, CHR 0xA0]"

definition trim :: "string \<Rightarrow> string" where
  "trim s = rev (dropWhile is_space (rev (dropWhile is_space s)))"

definition upper_chars :: string where
  "upper_chars = ''ABCDEFGHIJKLMNOPQRSTUVWXYZ'' @
     [CHR 0xC0, CHR 0xC1, CHR 0xC2, CHR 0xC3, CHR 0xC4, CHR 0xC5, CHR 0xC6, CHR 0xC7,
      CHR 0xC8, CHR 0xC9, CHR 0xCA, CHR 0xCB, CHR 0xCC, CHR 0xCD, CHR 0xCE, CHR 0xCF,
      CHR 0xD0, CHR 0xD1, CHR 0xD2, CHR 0xD3, CHR 0xD4, CHR 0xD5, CHR 0xD6,
      CHR 0xD8, CHR 0xD9, CHR 0xDA, CHR 0xDB, CHR 0xDC, CHR 0xDD, CHR 0xDE]"

definition lower_chars :: string where
  "lower_chars = ''abcdefghijklmnopqrstuvwxyz'' @
     [CHR 0xE0, CHR 0xE1, CHR 0xE2, CHR 0xE3, CHR 0xE4, CHR 0xE5, CHR 0xE6, CHR 0xE7,
      CHR 0xE8, CHR 0xE9, CHR 0xEA, CHR 0xEB, CHR 0xEC, CHR 0xED, CHR 0xEE, CHR 0xEF,
      CHR 0xF0, CHR 0xF1, CHR 0xF2, CHR 0xF3, CHR 0xF4, CHR 0xF5, CHR 0xF6,
      CHR 0xF8, CHR 0xF9, CHR 0xFA, CHR 0xFB, CHR 0xFC, CHR 0xFD, CHR 0xFE]"

definition toLowerCase :: "string \<Rightarrow> string" where
  "toLowerCase s =
     map (\<lambda>c. case map_of (zip upper_chars lower_chars) c of Some d \<Rightarrow> d | None \<Rightarrow> c) s"

text \<open>\<open>s.split(sep)\<close> for a one-character separator: never empty, \<open>''''\<close> gives \<open>['''']\<close>.\<close>

fun split_on :: "char \<Rightarrow> string \<Rightarrow> string list" where
  "split_on sep [] = [[]]"
| "split_on sep (c # cs) =
     (if c = sep then [] # split_on sep cs
      else (case split_on sep cs of [] \<Rightarrow> [[c]] | w # ws \<Rightarrow> (c # w) # ws))"

fun join :: "string \<Rightarrow> string list \<Rightarrow> string" where
  "join sep [] = []"
| "join sep [w] = w"
| "join sep (w # ws) = w @ sep @ join sep ws"

section \<open>Language normalization\<close>

text \<open>
  \<open>langMap\<close> is an object literal, and \<open>langMap[key]\<close> is a property read: a key that is
  not an own property is looked up on \<open>Object.prototype\<close>. The names below are the
  properties that object has under Deno (which removes \<open>__proto__\<close> at start-up); each
  holds a function, which is neither a string nor falsy. A read therefore yields a string
  of the table, a member of the prototype, or \<open>undefined\<close> (here \<open>None\<close>).
\<close>

datatype jsvalue = Str string | Inherited string

definition langMap :: "(string \<times> string) list" where
  "langMap =
     [(''js'', ''javascript''), (''javascript'', ''javascript''),
      (''ts'', ''typescript''), (''typescript'', ''typescript''),
      (''py'', ''python''), (''python'', ''python''),
      (''json'', ''json''), (''html'', ''html''), (''css'', ''css''),
      (''md'', ''markdown'')]"

definition object_prototype_names :: "string list" where
  "object_prototype_names =
     [''constructor'', ''hasOwnProperty'', ''isPrototypeOf'', ''propertyIsEnumerable'',
      ''toLocaleString'', ''toString'', ''valueOf'',
      ''__defineGetter__'', ''__defineSetter__'', ''__lookupGetter__'', ''__lookupSetter__'']"

definition get_property :: "(string \<times> string) list \<Rightarrow> string \<Rightarrow> jsvalue option" where
  "get_property obj key =
     (case map_of obj key of
        Some v \<Rightarrow> Some (Str v)
      | None \<Rightarrow> if key \<in> set object_prototype_names then Some (Inherited key) else None)"

fun truthy :: "jsvalue \<Rightarrow> bool" where
  "truthy (Str s) = (s \<noteq> [])"
| "truthy (Inherited n) = True"

definition normalizeLanguage :: "string \<Rightarrow> jsvalue" where
  "normalizeLanguage lang =
     (case get_property langMap (toLowerCase lang) of
        Some v \<Rightarrow> if truthy v then v else Str ''text''
      | None \<Rightarrow> Str ''text'')"

section \<open>The response parser\<close>

record ProjectFile =
  f_name :: string
  f_path :: string
  f_content :: string
  f_language :: jsvalue

definition fence :: string where
  "fence = ''```''"

definition starts_with_fence :: "string \<Rightarrow> bool" where
  "starts_with_fence s \<longleftrightarrow> take 3 s = fence"

text \<open>The lazy \<open>([\s\S]*?)```\<close>: everything up to the first closing fence, and what follows it.\<close>

fun split_at_fence :: "string \<Rightarrow> (string \<times> string) option" where
  "split_at_fence [] = None"
| "split_at_fence (c # cs) =
     (if starts_with_fence (c # cs) then Some ([], drop 3 (c # cs))
      else map_option (\<lambda>(b, r). (c # b, r)) (split_at_fence cs))"

text \<open>
  One attempt of \<open>/```(\w+)?:?(.*?)\n([\s\S]*?)```/\<close> at the start of \<open>s\<close>: the groups 1, 2 and 3
  and the text after the match. Group 1 takes the longest run of word characters
  (\<open>[]\<close> stands for an unset group), \<open>:?\<close> takes a colon when one follows, the lazy group 2
  runs to the first line terminator, which has to be a line feed, and group 3 runs to the
  first closing fence. Backtracking into a shorter group 1 or an untaken colon only moves
  characters into group 2 and meets the same line terminator and the same rest, so the
  first choice succeeds whenever any does (\<open>match_here_first_alternative\<close>).
\<close>

fun skip_colon :: "string \<Rightarrow> string" where
  "skip_colon [] = []"
| "skip_colon (c # cs) = (if c = CHR '':'' then cs else c # cs)"

definition match_here :: "string \<Rightarrow> (string \<times> string \<times> string \<times> string) option" where
  "match_here s =
     (if \<not> starts_with_fence s then None
      else
        let r = drop 3 s;
            g1 = takeWhile is_word_char r;
            r1 = dropWhile is_word_char r;
            r2 = skip_colon r1;
            g2 = takeWhile (\<lambda>c. \<not> is_line_terminator c) r2;
            r3 = dropWhile (\<lambda>c. \<not> is_line_terminator c) r2
        in (case r3 of
              [] \<Rightarrow> None
            | c # body \<Rightarrow>
                if c \<noteq> CHR 0x0A then None
                else (case split_at_fence body of
                        None \<Rightarrow> None
                      | Some (g3, rest) \<Rightarrow> Some (g1, g2, g3, rest))))"

text \<open>
  The pattern as the engine runs it: every way to match at the start of \<open>s\<close>, in the
  order in which backtracking tries them. A greedy part offers its longest choice first, a
  lazy part its shortest; \<open>exec\<close> returns the first alternative. That \<open>match_here\<close> is
  this first alternative is proved below.
\<close>

fun first :: "'a list \<Rightarrow> 'a option" where
  "first [] = None"
| "first (x # xs) = Some x"

fun lazy_any :: "string \<Rightarrow> (string \<times> string) list" where
  "lazy_any [] = []"
| "lazy_any (c # cs) =
     (if starts_with_fence (c # cs) then [([], drop 3 (c # cs))] else []) @
     map (\<lambda>(g3, rest). (c # g3, rest)) (lazy_any cs)"

fun lazy_line :: "string \<Rightarrow> (string \<times> string \<times> string) list" where
  "lazy_line [] = []"
| "lazy_line (c # cs) =
     (if c = CHR 0x0A then map (\<lambda>(g3, rest). ([], g3, rest)) (lazy_any cs) else []) @
     (if is_line_terminator c then []
      else map (\<lambda>(g2, g3, rest). (c # g2, g3, rest)) (lazy_line cs))"

fun greedy_word :: "string \<Rightarrow> (string \<times> string) list" where
  "greedy_word [] = []"
| "greedy_word (c # cs) =
     (if is_word_char c then map (\<lambda>(w, rest). (c # w, rest)) (greedy_word cs) @ [([c], cs)]
      else [])"

definition optional_word :: "string \<Rightarrow> (string \<times> string) list" where
  "optional_word r = greedy_word r @ [([], r)]"

fun optional_colon :: "string \<Rightarrow> string list" where
  "optional_colon [] = [[]]"
| "optional_colon (c # cs) = (if c = CHR '':'' then [cs, c # cs] else [c # cs])"

definition after_word :: "string \<times> string \<Rightarrow> (string \<times> string \<times> string \<times> string) list" where
  "after_word x =
     (case x of (g1, r1) \<Rightarrow>
        concat (map (\<lambda>r2. map (\<lambda>(g2, g3, rest). (g1, g2, g3, rest)) (lazy_line r2))
                  (optional_colon r1)))"

definition alternatives :: "string \<Rightarrow> (string \<times> string \<times> string \<times> string) list" where
  "alternatives s =
     (if starts_with_fence s then concat (map after_word (optional_word (drop 3 s))) else [])"

definition line_and_body :: "string \<Rightarrow> (string \<times> string \<times> string) option" where
  "line_and_body r2 =
     (case dropWhile (\<lambda>c. \<not> is_line_terminator c) r2 of
        [] \<Rightarrow> None
      | c # body \<Rightarrow>
          if c \<noteq> CHR 0x0A then None
          else map_option (\<lambda>(g3, rest). (takeWhile (\<lambda>c. \<not> is_line_terminator c) r2, g3, rest))
                 (split_at_fence body))"

lemma split_at_fence_shorter:
  "split_at_fence s = Some (b, r) \<Longrightarrow> length r < length s"
proof (induction s arbitrary: b)
  case Nil
  then show ?case by simp
next
  case (Cons c cs)
  show ?case
  proof (cases "starts_with_fence (c # cs)")
    case True
    with Cons.prems show ?thesis by auto
  next
    case False
    with Cons.prems obtain b' where "split_at_fence cs = Some (b', r)"
      by (auto split: prod.splits)
    from Cons.IH [OF this] show ?thesis by simp
  qed
qed

lemma length_skip_colon: "length (skip_colon r) \<le> length r"
  by (cases r) simp_all

lemma match_here_shorter:
  assumes "match_here s = Some (g1, g2, g3, rest)"
  shows "length rest < length s"
proof -
  let ?r = "drop 3 s"
  let ?r1 = "dropWhile is_word_char ?r"
  let ?r2 = "skip_colon ?r1"
  let ?r3 = "dropWhile (\<lambda>c. \<not> is_line_terminator c) ?r2"
  from assms obtain c body where r3: "?r3 = c # body"
    and sp: "split_at_fence body = Some (g3, rest)"
    by (auto simp: match_here_def Let_def split: if_splits list.splits option.splits)
  have "length ?r2 \<le> length ?r1"
    by (rule length_skip_colon)
  also have "\<dots> \<le> length ?r"
    by (rule length_dropWhile_le)
  also have "\<dots> \<le> length s"
    by simp
  finally have "length ?r2 \<le> length s" .
  moreover have "length ?r3 \<le> length ?r2"
    by (rule length_dropWhile_le)
  moreover have "length body < length ?r3"
    using r3 by simp
  moreover have "length rest < length body"
    using sp by (rule split_at_fence_shorter)
  ultimately show ?thesis by linarith
qed

text \<open>
  The \<open>while ((match = filePattern.exec(response)) !== null)\<close> loop of the global pattern:
  the leftmost match at or after \<open>lastIndex\<close>, then on from the end of that match.
\<close>

function exec_all :: "string \<Rightarrow> (string \<times> string \<times> string) list" where
  "exec_all [] = []"
| "exec_all (c # cs) =
     (case match_here (c # cs) of
        None \<Rightarrow> exec_all cs
      | Some (g1, g2, g3, rest) \<Rightarrow> (g1, g2, g3) # exec_all rest)"
  by pat_completeness auto
termination
  by (relation "measure length") (auto dest: match_here_shorter)

text \<open>\<open>filePath.split('/').pop() || filePath\<close>\<close>

definition basename :: "string \<Rightarrow> string" where
  "basename p = (let l = last (split_on CHR ''/'' p) in if l \<noteq> [] then l else p)"

text \<open>The body of the loop: the file pushed for one match, if any.\<close>

definition file_of_match :: "string \<times> string \<times> string \<Rightarrow> ProjectFile list" where
  "file_of_match m =
     (case m of (g1, g2, g3) \<Rightarrow>
        let language = (if g1 \<noteq> [] then g1 else ''text'');
            filePath = trim g2;
            fileContent = trim g3
        in if filePath \<noteq> [] \<and> fileContent \<noteq> []
           then [\<lparr>f_name = basename filePath, f_path = filePath,
                  f_content = fileContent, f_language = normalizeLanguage language\<rparr>]
           else [])"

definition parseFilesFromResponse :: "string \<Rightarrow> ProjectFile list" where
  "parseFilesFromResponse response = concat (map file_of_match (exec_all response))"


section \<open>The project store\<close>

text \<open>
  The module-level variables \<open>projects\<close> and \<open>nextPort\<close> and the service's
  \<open>runningProcesses\<close> form the state. A project is an object shared by reference; every
  function below reaches it through \<open>projects.find\<close>, so a write to one of its fields is
  an update of the first project with that id. The disk is seen through the operations the
  program performs on it: \<open>fs_log\<close> is the list of those that succeeded, oldest first, and
  \<open>signalled\<close> the list of child processes that were sent SIGTERM. What the
  operating system answers is the \<open>environment\<close> of a call. A counter value is a
  JavaScript number, which holds every integer below \<open>2^53\<close> exactly; \<open>nat\<close> is that
  counter for fewer than \<open>2^53 - 3001\<close> starts. The pictographs in the messages of the
  source are written as ASCII tags in brackets.
\<close>

datatype status = Created | Building | Running | Error | Stopped

record Project =
  p_id :: string
  p_name :: string
  p_description :: string
  p_language :: string
  p_status :: status
  p_created :: string
  p_path :: string
  p_files :: "ProjectFile list"
  p_currentFile :: "string option"
  p_lastOutput :: "string option"
  p_port :: "nat option"

text \<open>
  A handle of a spawned child. \<open>kill\<close> throws on a child that has already terminated;
  on a live one the signal is delivered. A live child exits on the signal, and then the
  promise \<open>process.status\<close> settles, unless it ignores SIGTERM: then the promise stays
  pending.
\<close>

record ChildProcess =
  cp_pid :: nat
  cp_terminated :: bool
  cp_ignores_sigterm :: bool

text \<open>
  What a failing call throws: a value whose \<open>message\<close> reads as the given text, as the
  errors of the runtime are, or \<open>null\<close> or \<open>undefined\<close>, on which the read of \<open>message\<close>
  is a TypeError.
\<close>

datatype thrown = Thrown string | ThrownNullish

datatype fs_op = Mkdir string | WriteTextFile string string

datatype command_outcome = CommandOutput string string bool | CommandThrew thrown

datatype error = NotFound | IOError fs_op | SpawnError | TypeError | ReferenceError

record store =
  projects :: "Project list"
  nextPort :: nat
  runningProcesses :: "string \<rightharpoonup> ChildProcess"
  fs_log :: "fs_op list"
  signalled :: "nat list"

record environment =
  fs_ok :: "fs_op \<Rightarrow> bool"
  stat_error :: "string \<Rightarrow> thrown option"
  command_result :: "string \<Rightarrow> string list \<Rightarrow> string \<Rightarrow> command_outcome"
  spawn_result :: "string \<Rightarrow> string list \<Rightarrow> string \<Rightarrow> nat \<Rightarrow> ChildProcess option"
  windows :: bool
  generated_id :: string
  current_time :: string

definition initial_store :: store where
  "initial_store =
     \<lparr>projects = [], nextPort = 3001, runningProcesses = Map.empty, fs_log = [], signalled = []\<rparr>"

definition find_project :: "string \<Rightarrow> Project list \<Rightarrow> Project option" where
  "find_project i ps = List.find (\<lambda>p. p_id p = i) ps"

fun update_project :: "string \<Rightarrow> (Project \<Rightarrow> Project) \<Rightarrow> Project list \<Rightarrow> Project list" where
  "update_project i g [] = []"
| "update_project i g (p # ps) = (if p_id p = i then g p # ps else p # update_project i g ps)"

definition set_status :: "string \<Rightarrow> status \<Rightarrow> store \<Rightarrow> store" where
  "set_status i s st = st\<lparr>projects := update_project i (\<lambda>p. p\<lparr>p_status := s\<rparr>) (projects st)\<rparr>"

subsection \<open>createOrUpdateProject\<close>

text \<open>\<open>findIndex\<close> by path, then assignment at that index or \<open>push\<close>.\<close>

fun upsert_file :: "ProjectFile \<Rightarrow> ProjectFile list \<Rightarrow> ProjectFile list" where
  "upsert_file newFile [] = [newFile]"
| "upsert_file newFile (f # fs) =
     (if f_path f = f_path newFile then newFile # fs else f # upsert_file newFile fs)"

definition lastIndexOf :: "char \<Rightarrow> string \<Rightarrow> int" where
  "lastIndexOf c s =
     (if c \<in> set s then int (length s) - 1 - int (length (takeWhile (\<lambda>x. x \<noteq> c) (rev s)))
      else - 1)"

text \<open>\<open>s.substring(0, e)\<close>: a negative end counts as 0, one beyond the length as the length.\<close>

definition substring0 :: "string \<Rightarrow> int \<Rightarrow> string" where
  "substring0 s e = take (nat e) s"

definition full_path :: "string \<Rightarrow> string \<Rightarrow> string" where
  "full_path root rel = root @ ''/'' @ rel"

text \<open>
  The body of both write loops: \<open>mkdir\<close> of the directory part, then \<open>writeTextFile\<close>; an
  error of either is caught and logged, and the loop goes on.
\<close>

definition dir_part :: "string \<Rightarrow> string" where
  "dir_part fullPath = substring0 fullPath (lastIndexOf CHR ''/'' fullPath)"

definition write_file :: "environment \<Rightarrow> string \<Rightarrow> ProjectFile \<Rightarrow> fs_op list \<Rightarrow> fs_op list" where
  "write_file env root file log =
     (let fullPath = full_path root (f_path file);
          dirPath = dir_part fullPath
      in if \<not> fs_ok env (Mkdir dirPath) then log
         else if \<not> fs_ok env (WriteTextFile fullPath (f_content file)) then log @ [Mkdir dirPath]
         else log @ [Mkdir dirPath, WriteTextFile fullPath (f_content file)])"

fun write_files :: "environment \<Rightarrow> string \<Rightarrow> ProjectFile list \<Rightarrow> fs_op list \<Rightarrow> fs_op list" where
  "write_files env root [] log = log"
| "write_files env root (file # files) log = write_files env root files (write_file env root file log)"

fun upsert_files :: "ProjectFile list \<Rightarrow> ProjectFile list \<Rightarrow> ProjectFile list" where
  "upsert_files [] existing = existing"
| "upsert_files (newFile # files) existing = upsert_files files (upsert_file newFile existing)"

definition generateProjectName :: "string \<Rightarrow> string" where
  "generateProjectName prompt =
     (let slug = filter (\<lambda>c. c \<in> set ''abcdefghijklmnopqrstuvwxyz0123456789-'')
                   (toLowerCase (join ''-'' (take 3 (split_on CHR '' '' prompt))))
      in if slug \<noteq> [] then slug else ''new-project'')"

definition detectPrimaryLanguage :: "ProjectFile list \<Rightarrow> string" where
  "detectPrimaryLanguage files =
     (let languages = map f_language files
      in if Str ''typescript'' \<in> set languages then ''typescript''
         else if Str ''javascript'' \<in> set languages then ''javascript''
         else if Str ''python'' \<in> set languages then ''python''
         else ''javascript'')"

text \<open>
  \<open>existingProject\<close> is the object the chat route found in \<open>projects\<close>. In the update
  branch each file is upserted and then written, one after the other; the two effects touch
  different parts of the state, so they are folded separately.
\<close>

definition createOrUpdateProject ::
  "environment \<Rightarrow> ProjectFile list \<Rightarrow> string \<Rightarrow> Project option \<Rightarrow> store \<Rightarrow> (error + Project) \<times> store" where
  "createOrUpdateProject env files prompt existingProject st =
     (case existingProject of
        Some existing \<Rightarrow>
          let project = existing\<lparr>p_files := upsert_files files (p_files existing)\<rparr>
          in (Inr project,
              st\<lparr>projects := update_project (p_id existing)
                                (\<lambda>p. p\<lparr>p_files := upsert_files files (p_files p)\<rparr>) (projects st),
                 fs_log := write_files env (p_path existing) files (fs_log st)\<rparr>)
      | None \<Rightarrow>
          let projectId = generated_id env;
              projectPath = ''./projects/'' @ projectId
          in if \<not> fs_ok env (Mkdir projectPath) then (Inl (IOError (Mkdir projectPath)), st)
             else
               let project =
                     \<lparr>p_id = projectId, p_name = generateProjectName prompt,
                      p_description = ''Project generated from: '' @ prompt,
                      p_language = detectPrimaryLanguage files, p_status = Created,
                      p_created = current_time env, p_path = projectPath, p_files = files,
                      p_currentFile = None, p_lastOutput = None, p_port = None\<rparr>
               in (Inr project,
                   st\<lparr>projects := project # projects st,
                      fs_log := write_files env projectPath files (fs_log st @ [Mkdir projectPath])\<rparr>))"

subsection \<open>updateFileContent\<close>

text \<open>\<open>files.find\<close> by path, then the assignment to the \<open>content\<close> of the entry found.\<close>

fun set_content :: "string \<Rightarrow> string \<Rightarrow> ProjectFile list \<Rightarrow> ProjectFile list" where
  "set_content filePath content [] = []"
| "set_content filePath content (f # fs) =
     (if f_path f = filePath then f\<lparr>f_content := content\<rparr> # fs
      else f # set_content filePath content fs)"

definition updateFileContent ::
  "environment \<Rightarrow> string \<Rightarrow> string \<Rightarrow> string \<Rightarrow> store \<Rightarrow> (error + unit) \<times> store" where
  "updateFileContent env projectId filePath content st =
     (case find_project projectId (projects st) of
        None \<Rightarrow> (Inl NotFound, st)
      | Some project \<Rightarrow>
          let fullPath = full_path (p_path project) filePath
          in if \<not> fs_ok env (WriteTextFile fullPath content)
             then (Inl (IOError (WriteTextFile fullPath content)), st)
             else (Inr (),
                   st\<lparr>fs_log := fs_log st @ [WriteTextFile fullPath content],
                      projects := update_project projectId
                        (\<lambda>p. p\<lparr>p_files := set_content filePath content (p_files p)\<rparr>) (projects st)\<rparr>))"

subsection \<open>buildProject\<close>

definition shell :: "environment \<Rightarrow> string" where
  "shell env = (if windows env then ''cmd'' else ''sh'')"

definition shell_args :: "environment \<Rightarrow> string \<Rightarrow> string list" where
  "shell_args env line = (if windows env then [''/c'', line] else [''-c'', line])"

text \<open>
  The body of the outer \<open>try\<close>: the text of \<open>output\<close> when it completes, \<open>Inl\<close> the
  exception that leaves it. Both branches wrap all they call in a \<open>try\<close> of their own.
  The \<open>catch\<close> of the first reads \<open>error.message\<close> into a line of output, which raises a
  TypeError when the value caught is \<open>null\<close> or \<open>undefined\<close>; the \<open>catch\<close> of the second
  binds nothing and cannot raise.
\<close>

definition build_steps :: "environment \<Rightarrow> Project \<Rightarrow> error + string" where
  "build_steps env project =
     (if p_language project = ''javascript'' \<or> p_language project = ''typescript'' then
        (case stat_error env (p_path project @ ''/package.json'') of
           Some (Thrown msg) \<Rightarrow>
             Inr (''[info] No package.json found or npm not available: '' @ msg @ [CHR 0x0A])
         | Some ThrownNullish \<Rightarrow> Inl TypeError
         | None \<Rightarrow>
             (case command_result env (shell env) (shell_args env ''npm install'') (p_path project) of
                CommandThrew (Thrown msg) \<Rightarrow>
                  Inr (''[info] No package.json found or npm not available: '' @ msg @ [CHR 0x0A])
              | CommandThrew ThrownNullish \<Rightarrow> Inl TypeError
              | CommandOutput stdoutText stderrText success \<Rightarrow>
                  Inr (stdoutText @
                       (if stderrText \<noteq> [] then [CHR 0x0A] @ ''STDERR: '' @ stderrText else []) @
                       (if success
                        then [CHR 0x0A] @ ''[ok] Dependencies installed successfully'' @ [CHR 0x0A]
                        else [CHR 0x0A] @ ''[failed] Dependency installation failed'' @ [CHR 0x0A]))))
      else if p_language project = ''python'' then
        (case stat_error env (p_path project @ ''/requirements.txt'') of
           Some e \<Rightarrow> Inr (''[info] No requirements.txt found'' @ [CHR 0x0A])
         | None \<Rightarrow>
             (case command_result env (shell env)
                     (shell_args env ''pip install -r requirements.txt'') (p_path project) of
                CommandThrew e \<Rightarrow> Inr (''[info] No requirements.txt found'' @ [CHR 0x0A])
              | CommandOutput stdoutText stderrText success \<Rightarrow>
                  Inr (stdoutText @ stderrText @
                       [CHR 0x0A] @ ''[ok] Python dependencies installed successfully'' @ [CHR 0x0A])))
      else Inr [])"

text \<open>
  The outcome of the call and the states of the store after each of its writes, in order:
  none when the project is not found, else the state with the status \<open>building\<close>, which is
  what other requests see while the build awaits, and the state the call ends with. The
  outer \<open>catch\<close> sets the status and then appends to \<open>output\<close>, a variable of the \<open>try\<close>
  block that is not in scope there, so what it raises is a ReferenceError.
\<close>

definition buildProject ::
  "environment \<Rightarrow> string \<Rightarrow> store \<Rightarrow> (error + string) \<times> store list" where
  "buildProject env projectId st =
     (case find_project projectId (projects st) of
        None \<Rightarrow> (Inl NotFound, [])
      | Some project \<Rightarrow>
          let st1 = set_status projectId Building st
          in (case build_steps env project of
                Inr output \<Rightarrow>
                  (Inr (if output \<noteq> [] then output
                        else ''[ok] Build completed (no dependencies to install)''),
                   [st1, set_status projectId Created st1])
              | Inl e \<Rightarrow> (Inl ReferenceError, [st1, set_status projectId Error st1])))"

subsection \<open>stopProject and runProject\<close>

text \<open>
  The outcome is \<open>None\<close> when the call does not return: it stays pending at
  \<open>await process.status\<close>, after the signal and before the binding is removed and the
  status set. An error of \<open>kill\<close> is caught and logged.
\<close>

definition stopProject :: "string \<Rightarrow> store \<Rightarrow> (error + string) option \<times> store" where
  "stopProject projectId st =
     (case find_project projectId (projects st) of
        None \<Rightarrow> (Some (Inl NotFound), st)
      | Some project \<Rightarrow>
          (case runningProcesses st projectId of
             None \<Rightarrow> (Some (Inr ''Project stopped''), set_status projectId Stopped st)
           | Some process \<Rightarrow>
               if cp_terminated process
               then (Some (Inr ''Project stopped''), set_status projectId Stopped st)
               else if cp_ignores_sigterm process
               then (None, st\<lparr>signalled := signalled st @ [cp_pid process]\<rparr>)
               else (Some (Inr ''Project stopped''),
                     set_status projectId Stopped
                       (st\<lparr>signalled := signalled st @ [cp_pid process],
                           runningProcesses := (runningProcesses st)(projectId := None)\<rparr>))))"







subsection \<open>The routes\<close>

text \<open>
  \<open>DELETE /api/projects/:id\<close>: the listing is filtered first, then \<open>stopProject\<close> is called
  and its rejection handed to \<open>console.error\<close>.
\<close>

definition delete_route :: "string \<Rightarrow> store \<Rightarrow> store" where
  "delete_route projectId st =
     snd (stopProject projectId (st\<lparr>projects := filter (\<lambda>project. p_id project \<noteq> projectId) (projects st)\<rparr>))"

text \<open>
  \<open>POST /api/chat\<close> from the point where the agent has answered with \<open>rawResponse\<close>; a
  missing or empty \<open>projectId\<close> is \<open>None\<close>.
\<close>

definition chat_route :: "environment \<Rightarrow> string \<Rightarrow> string \<Rightarrow> string option \<Rightarrow> store \<Rightarrow> store" where
  "chat_route env rawResponse message projectId st =
     (let currentProject = (case projectId of None \<Rightarrow> None
                            | Some i \<Rightarrow> if i \<noteq> [] then find_project i (projects st) else None);
          files = parseFilesFromResponse rawResponse
      in if files \<noteq> [] then snd (createOrUpdateProject env files message currentProject st) else st)"

datatype request =
    Chat string string "string option"
  | Build string
  | Run string
  | Stop string
  | UpdateFile string string string
  | Delete string




section \<open>What the specification says, in terms of the model\<close>

subsection \<open>Responses made of prose and fenced blocks\<close>

text \<open>
  A response as the specification reads it: prose, blocks with a \<open>language:path\<close> header
  and blocks whose header is a language alone. \<open>render\<close> is the text of such a response.
  \<open>expected_files\<close> is the list of files the specification asks for: one for each block
  with a header path and an interior that are not empty once the blanks around them are
  removed, in the order of the blocks, with that path, the trimmed interior and the
  normalized language.
\<close>

datatype segment = Prose string | Block string string string | Bare string string

fun render_segment :: "segment \<Rightarrow> string" where
  "render_segment (Prose t) = t"
| "render_segment (Block l p c) = fence @ l @ '':'' @ p @ [CHR 0x0A] @ c @ fence"
| "render_segment (Bare l c) = fence @ l @ [CHR 0x0A] @ c @ fence"

definition render :: "segment list \<Rightarrow> string" where
  "render segs = concat (map render_segment segs)"

fun expected_of_segment :: "segment \<Rightarrow> (string \<times> string \<times> jsvalue) list" where
  "expected_of_segment (Block l p c) =
     (if trim p \<noteq> [] \<and> trim c \<noteq> [] then [(trim p, trim c, normalizeLanguage l)] else [])"
| "expected_of_segment (Prose t) = []"
| "expected_of_segment (Bare l c) = []"

definition expected_files :: "segment list \<Rightarrow> (string \<times> string \<times> jsvalue) list" where
  "expected_files segs = concat (map expected_of_segment segs)"

definition extracted_files :: "string \<Rightarrow> (string \<times> string \<times> jsvalue) list" where
  "extracted_files response =
     map (\<lambda>f. (f_path f, f_content f, f_language f)) (parseFilesFromResponse response)"

text \<open>
  The responses the pattern reads as they are meant: prose holds no run of three backquotes
  and does not end in one, a language is a run of word characters (possibly empty), a
  header path holds no line terminator, and an interior holds no run of three backquotes
  and does not end in one.
\<close>

fun wellformed_segment :: "segment \<Rightarrow> bool" where
  "wellformed_segment (Prose t) \<longleftrightarrow> split_at_fence (t @ ''``'') = None"
| "wellformed_segment (Block l p c) \<longleftrightarrow>
     list_all is_word_char l \<and> list_all (\<lambda>c. \<not> is_line_terminator c) p \<and>
     split_at_fence (c @ ''``'') = None"
| "wellformed_segment (Bare l c) \<longleftrightarrow>
     list_all is_word_char l \<and> split_at_fence (c @ ''``'') = None"

subsection \<open>Where a path leads\<close>

text \<open>
  The segments of a path once \<open>.\<close>, empty segments and \<open>..\<close> are resolved, as the
  operating system resolves a relative path in the absence of symbolic links; a \<open>..\<close>
  that climbs above the starting directory is kept. A target is inside a root when the
  resolved root is an initial part of the resolved target.
\<close>

fun resolve_step :: "string list \<Rightarrow> string \<Rightarrow> string list" where
  "resolve_step stack seg =
     (if seg = [] \<or> seg = ''.'' then stack
      else if seg = ''..'' then
        (case stack of
           [] \<Rightarrow> [''..'']
         | upper # below \<Rightarrow> if upper = ''..'' then ''..'' # stack else below)
      else seg # stack)"

definition resolve :: "string \<Rightarrow> string list" where
  "resolve p = rev (foldl resolve_step [] (split_on CHR ''/'' p))"

definition lexically_inside :: "string \<Rightarrow> string \<Rightarrow> bool" where
  "lexically_inside root target \<longleftrightarrow> take (length (resolve root)) (resolve target) = resolve root"

definition status_of :: "string \<Rightarrow> store \<Rightarrow> status option" where
  "status_of i st = map_option p_status (find_project i (projects st))"

subsection \<open>A small store to run the operations on\<close>

text \<open>
  One project with two files, the same store with a child registered for it (one that
  exits on SIGTERM, one that ignores it), an environment in which every call to the
  operating system succeeds, one in which \<open>Deno.stat\<close> throws \<open>undefined\<close>, and two
  responses of the agent.
\<close>

definition demo_files :: "ProjectFile list" where
  "demo_files =
     [\<lparr>f_name = ''index.js'', f_path = ''index.js'', f_content = ''console.log(1)'',
       f_language = Str ''javascript''\<rparr>,
      \<lparr>f_name = ''util.js'', f_path = ''src/util.js'', f_content = ''export {}'',
       f_language = Str ''javascript''\<rparr>]"

definition demo_project :: Project where
  "demo_project =
     \<lparr>p_id = ''p1'', p_name = ''counter-app'', p_description = ''Project generated from: counter app'',
      p_language = ''javascript'', p_status = Created, p_created = ''2024-01-01T00:00:00.000Z'',
      p_path = ''./projects/p1'', p_files = demo_files,
      p_currentFile = None, p_lastOutput = None, p_port = None\<rparr>"

definition demo_store :: store where
  "demo_store = initial_store\<lparr>projects := [demo_project]\<rparr>"

definition demo_running_store :: store where
  "demo_running_store =
     demo_store\<lparr>runningProcesses :=
                  [''p1'' \<mapsto> \<lparr>cp_pid = 7, cp_terminated = False, cp_ignores_sigterm = False\<rparr>]\<rparr>"

definition demo_stubborn_store :: store where
  "demo_stubborn_store =
     demo_store\<lparr>runningProcesses :=
                  [''p1'' \<mapsto> \<lparr>cp_pid = 7, cp_terminated = False, cp_ignores_sigterm = True\<rparr>]\<rparr>"

definition demo_env :: environment where
  "demo_env =
     \<lparr>fs_ok = (\<lambda>op. True), stat_error = (\<lambda>path. None),
      command_result = (\<lambda>command args cwd. CommandOutput [] [] True),
      spawn_result = (\<lambda>command args cwd port.
                        Some \<lparr>cp_pid = port, cp_terminated = False, cp_ignores_sigterm = False\<rparr>),
      windows = False, generated_id = ''abc123'', current_time = ''2024-01-01T00:00:00.000Z''\<rparr>"

definition repeated_response :: string where
  "repeated_response = render [Block ''js'' ''a.js'' ''one'', Block ''js'' ''a.js'' ''two'']"

definition demo_nullish_env :: environment where
  "demo_nullish_env = demo_env\<lparr>stat_error := (\<lambda>path. Some ThrownNullish)\<rparr>"


section \<open>The response parser: proofs\<close>

subsection \<open>The pattern\<close>

lemma first_map: "first (map f xs) = map_option f (first xs)"
  by (cases xs) simp_all

lemma first_append: "first (xs @ ys) = (case first xs of None \<Rightarrow> first ys | Some x \<Rightarrow> Some x)"
  by (cases xs) simp_all

lemma first_None: "first xs = None \<longleftrightarrow> xs = []"
  by (cases xs) simp_all

lemma first_lazy_any: "first (lazy_any body) = split_at_fence body"
proof (induction body)
  case Nil
  show ?case by simp
next
  case (Cons c cs)
  then show ?case
    by (simp add: first_append first_map)
qed

lemma line_shape:
  "map_option (\<lambda>(g2, g3, rest). (c # g2, g3, rest))
     (case d of
        [] \<Rightarrow> None
      | x # body \<Rightarrow>
          if x \<noteq> CHR 0x0A then None
          else map_option (\<lambda>(g3, rest). (t, g3, rest)) (split_at_fence body)) =
   (case d of
      [] \<Rightarrow> None
    | x # body \<Rightarrow>
        if x \<noteq> CHR 0x0A then None
        else map_option (\<lambda>(g3, rest). (c # t, g3, rest)) (split_at_fence body))"
  by (cases d) (auto simp: option.map_comp comp_def split_def)

lemma match_shape:
  "(case d of
      [] \<Rightarrow> None
    | x # body \<Rightarrow>
        if x \<noteq> CHR 0x0A then None
        else (case split_at_fence body of
                None \<Rightarrow> None
              | Some (g3, rest) \<Rightarrow> Some (g1, t, g3, rest))) =
   map_option (\<lambda>(g2, g3, rest). (g1, g2, g3, rest))
     (case d of
        [] \<Rightarrow> None
      | x # body \<Rightarrow>
          if x \<noteq> CHR 0x0A then None
          else map_option (\<lambda>(g3, rest). (t, g3, rest)) (split_at_fence body))"
  by (cases d) (auto simp: split_def split: option.splits)

lemma first_lazy_line: "first (lazy_line r2) = line_and_body r2"
proof (induction r2)
  case Nil
  show ?case by (simp add: line_and_body_def)
next
  case (Cons c cs)
  show ?case
  proof (cases "is_line_terminator c")
    case True
    then show ?thesis
      by (cases "split_at_fence cs")
         (auto simp: line_and_body_def first_map first_lazy_any is_line_terminator_def)
  next
    case False
    then have lf: "c \<noteq> CHR 0x0A" by (auto simp: is_line_terminator_def)
    have "first (lazy_line (c # cs)) =
            map_option (\<lambda>(g2, g3, rest). (c # g2, g3, rest)) (line_and_body cs)"
      using False lf Cons.IH by (simp add: first_map)
    also have "\<dots> = line_and_body (c # cs)"
    proof -
      have tk: "takeWhile (\<lambda>c. \<not> is_line_terminator c) (c # cs) =
                  c # takeWhile (\<lambda>c. \<not> is_line_terminator c) cs"
        and dk: "dropWhile (\<lambda>c. \<not> is_line_terminator c) (c # cs) =
                  dropWhile (\<lambda>c. \<not> is_line_terminator c) cs"
        using False by simp_all
      show ?thesis
        unfolding line_and_body_def tk dk line_shape by (rule refl)
    qed
    finally show ?thesis .
  qed
qed

lemma lazy_line_skip:
  "list_all (\<lambda>c. \<not> is_line_terminator c) w \<Longrightarrow> lazy_line (w @ r) = [] \<longleftrightarrow> lazy_line r = []"
proof (induction w)
  case Nil
  show ?case by simp
next
  case (Cons c w)
  then have "c \<noteq> CHR 0x0A" by (auto simp: is_line_terminator_def)
  with Cons show ?case by simp
qed

lemma word_not_terminator: "is_word_char c \<Longrightarrow> \<not> is_line_terminator c"
  by (auto simp: is_word_char_def is_line_terminator_def)

lemma greedy_word_parts:
  "(w, rest) \<in> set (greedy_word r) \<Longrightarrow> r = w @ rest \<and> list_all is_word_char w"
  by (induction r arbitrary: w rest) (auto split: if_splits)

lemma greedy_word_first:
  "first (greedy_word r) =
     (if takeWhile is_word_char r = [] then None
      else Some (takeWhile is_word_char r, dropWhile is_word_char r))"
proof (induction r)
  case Nil
  show ?case by simp
next
  case (Cons c cs)
  show ?case
  proof (cases "is_word_char c")
    case False
    then show ?thesis by simp
  next
    case True
    show ?thesis
    proof (cases "takeWhile is_word_char cs = []")
      case t: True
      then have "dropWhile is_word_char cs = cs"
        by (metis append_Nil takeWhile_dropWhile_id)
      with True t Cons.IH show ?thesis
        by (simp add: first_append first_map)
    next
      case f: False
      with True Cons.IH show ?thesis
        by (simp add: first_append first_map)
    qed
  qed
qed

lemma after_word_first:
  "first (after_word (g1, r1)) =
     map_option (\<lambda>(g2, g3, rest). (g1, g2, g3, rest)) (line_and_body (skip_colon r1))"
proof (cases r1)
  case Nil
  then show ?thesis
    by (simp add: after_word_def first_map line_and_body_def)
next
  case r1: (Cons c cs)
  show ?thesis
  proof (cases "c = CHR '':''")
    case False
    with r1 show ?thesis
      by (simp add: after_word_def first_map first_lazy_line del: lazy_line.simps)
  next
    case True
    have e: "lazy_line (c # cs) = [] \<longleftrightarrow> lazy_line cs = []"
      using lazy_line_skip [of "[c]" cs] True by (simp add: is_line_terminator_def)
    show ?thesis
    proof (cases "lazy_line cs")
      case Nil
      with e have "lazy_line (c # cs) = []" by blast
      with r1 True Nil show ?thesis
        by (simp add: after_word_def del: lazy_line.simps flip: first_lazy_line)
    next
      case (Cons y ys)
      with r1 True show ?thesis
        by (simp add: after_word_def del: lazy_line.simps flip: first_lazy_line)
    qed
  qed
qed

lemma after_word_empty:
  "after_word (g1, r1) = [] \<longleftrightarrow> lazy_line r1 = []"
proof (cases r1)
  case Nil
  then show ?thesis by (simp add: after_word_def)
next
  case (Cons c cs)
  show ?thesis
  proof (cases "c = CHR '':''")
    case False
    with Cons show ?thesis by (simp add: after_word_def)
  next
    case True
    have "lazy_line (c # cs) = [] \<longleftrightarrow> lazy_line cs = []"
      using lazy_line_skip [of "[c]" cs] True by (simp add: is_line_terminator_def)
    with Cons True show ?thesis by (auto simp: after_word_def)
  qed
qed

lemma optional_word_empty:
  assumes "x \<in> set (optional_word r)"
  shows "after_word x = [] \<longleftrightarrow> lazy_line r = []"
proof -
  obtain w rest where x: "x = (w, rest)" by (cases x) auto
  with assms have "r = w @ rest \<and> list_all is_word_char w"
    by (auto simp: optional_word_def dest: greedy_word_parts)
  then have r: "r = w @ rest" and "list_all (\<lambda>c. \<not> is_line_terminator c) w"
    by (auto simp: list_all_iff word_not_terminator)
  then have "lazy_line r = [] \<longleftrightarrow> lazy_line rest = []"
    using lazy_line_skip by blast
  with x show ?thesis by (simp add: after_word_empty)
qed

lemma optional_word_first:
  "\<exists>xs. optional_word r = (takeWhile is_word_char r, dropWhile is_word_char r) # xs"
proof (cases "greedy_word r")
  case Nil
  then have "takeWhile is_word_char r = []"
    using greedy_word_first [of r] by (simp split: if_splits)
  moreover from this have "dropWhile is_word_char r = r"
    by (metis append_Nil takeWhile_dropWhile_id)
  ultimately show ?thesis
    using Nil by (simp add: optional_word_def)
next
  case (Cons y ys)
  then have "y = (takeWhile is_word_char r, dropWhile is_word_char r)"
    using greedy_word_first [of r] by (simp split: if_splits)
  with Cons show ?thesis
    by (simp add: optional_word_def)
qed

text \<open>
  The attempt of \<open>match_here\<close> is the first alternative of the backtracking search: when
  its choice fails, every other alternative fails on the same line terminator or the same
  missing fence.
\<close>

theorem match_here_first_alternative: "match_here s = first (alternatives s)"
proof (cases "starts_with_fence s")
  case False
  then show ?thesis by (simp add: match_here_def alternatives_def)
next
  case True
  let ?r = "drop 3 s"
  let ?g1 = "takeWhile is_word_char ?r"
  let ?r1 = "dropWhile is_word_char ?r"
  have det: "match_here s =
      map_option (\<lambda>(g2, g3, rest). (?g1, g2, g3, rest)) (line_and_body (skip_colon ?r1))"
    using True
    by (simp only: match_here_def Let_def line_and_body_def match_shape not_True_eq_False if_False)
  obtain xs where ow: "optional_word ?r = (?g1, ?r1) # xs"
    using optional_word_first by blast
  show ?thesis
  proof (cases "lazy_line ?r = []")
    case e: True
    then have "\<forall>x \<in> set (optional_word ?r). after_word x = []"
      using optional_word_empty by blast
    then have "alternatives s = []"
      using True by (simp add: alternatives_def)
    moreover have "after_word (?g1, ?r1) = []"
      using e optional_word_empty [of "(?g1, ?r1)" ?r] ow by simp
    then have "first (after_word (?g1, ?r1)) = None"
      by simp
    ultimately show ?thesis
      using det by (simp add: after_word_first)
  next
    case ne: False
    then have "after_word (?g1, ?r1) \<noteq> []"
      using optional_word_empty [of "(?g1, ?r1)" ?r] ow by simp
    then obtain y ys where "after_word (?g1, ?r1) = y # ys"
      by (cases "after_word (?g1, ?r1)") auto
    then have "first (alternatives s) = first (after_word (?g1, ?r1))"
      using True ow by (simp add: alternatives_def)
    then show ?thesis
      using det by (simp add: after_word_first)
  qed
qed

subsection \<open>Responses of prose and blocks\<close>

text \<open>\<open>split\<close> never returns an empty array, so \<open>pop\<close> in \<open>basename\<close> has an element to return.\<close>

lemma split_on_not_Nil: "split_on sep s \<noteq> []"
  by (induction s) (auto split: list.splits)

lemma starts_with_fence_prefix:
  assumes "xs \<noteq> []" and "starts_with_fence (xs @ rest)"
  shows "starts_with_fence (xs @ ''``'')"
proof -
  from assms(1) obtain x1 xs1 where xs: "xs = x1 # xs1" by (cases xs) auto
  show ?thesis
  proof (cases xs1)
    case Nil
    with xs assms(2) show ?thesis by (simp add: starts_with_fence_def fence_def)
  next
    case (Cons x2 xs2)
    note c2 = this
    show ?thesis
    proof (cases xs2)
      case Nil
      with xs c2 assms(2) show ?thesis by (simp add: starts_with_fence_def fence_def)
    next
      case (Cons x3 xs3)
      with xs c2 assms(2) show ?thesis by (simp add: starts_with_fence_def fence_def)
    qed
  qed
qed

lemma split_at_fence_close:
  "split_at_fence (c @ ''``'') = None \<Longrightarrow> split_at_fence (c @ fence @ rest) = Some (c, rest)"
proof (induction c)
  case Nil
  show ?case by (simp add: fence_def starts_with_fence_def)
next
  case (Cons x xs)
  from Cons.prems have nf: "\<not> starts_with_fence ((x # xs) @ ''``'')"
    and tl: "split_at_fence (xs @ ''``'') = None"
    by (auto split: if_splits)
  have "\<not> starts_with_fence ((x # xs) @ fence @ rest)"
    using starts_with_fence_prefix [of "x # xs" "fence @ rest"] nf by blast
  with Cons.IH [OF tl] show ?case by simp
qed

lemma match_here_no_fence: "\<not> starts_with_fence s \<Longrightarrow> match_here s = None"
  by (simp add: match_here_def)

lemma exec_all_prose:
  "split_at_fence (t @ ''``'') = None \<Longrightarrow> exec_all (t @ rest) = exec_all rest"
proof (induction t)
  case Nil
  show ?case by simp
next
  case (Cons x xs)
  from Cons.prems have nf: "\<not> starts_with_fence ((x # xs) @ ''``'')"
    and tl: "split_at_fence (xs @ ''``'') = None"
    by (auto split: if_splits)
  have "\<not> starts_with_fence ((x # xs) @ rest)"
    using starts_with_fence_prefix [of "x # xs" rest] nf by blast
  then have "match_here (x # xs @ rest) = None"
    by (simp add: match_here_no_fence)
  with Cons.IH [OF tl] show ?case by simp
qed

lemma not_word_colon: "\<not> is_word_char CHR '':''"
  by (simp add: is_word_char_def)

lemma not_word_lf: "\<not> is_word_char (CHR 0x0A)"
  by (simp add: is_word_char_def)

lemma match_here_block:
  assumes l: "list_all is_word_char l"
    and p: "list_all (\<lambda>c. \<not> is_line_terminator c) p"
    and c: "split_at_fence (c @ ''``'') = None"
  shows "match_here (fence @ l @ '':'' @ p @ [CHR 0x0A] @ c @ fence @ rest) = Some (l, p, c, rest)"
proof -
  let ?tail = "p @ [CHR 0x0A] @ c @ fence @ rest"
  let ?s = "fence @ l @ '':'' @ ?tail"
  have sf: "starts_with_fence ?s" and d3: "drop 3 ?s = l @ '':'' @ ?tail"
    by (simp_all add: starts_with_fence_def fence_def)
  have g1: "takeWhile is_word_char (l @ '':'' @ ?tail) = l"
    using l by (simp add: list_all_iff takeWhile_append2 not_word_colon)
  have r1: "dropWhile is_word_char (l @ '':'' @ ?tail) = '':'' @ ?tail"
    using l by (simp add: list_all_iff dropWhile_append2 not_word_colon)
  have r2: "skip_colon ('':'' @ ?tail) = ?tail"
    by simp
  have g2: "takeWhile (\<lambda>c. \<not> is_line_terminator c) ?tail = p"
    using p by (simp add: list_all_iff takeWhile_append2 is_line_terminator_def)
  have r3: "dropWhile (\<lambda>c. \<not> is_line_terminator c) ?tail = CHR 0x0A # c @ fence @ rest"
    using p by (simp add: list_all_iff dropWhile_append2 is_line_terminator_def)
  show ?thesis
    unfolding match_here_def Let_def d3 g1 r1 r2 g2 r3
    using sf split_at_fence_close [OF c, of rest] by simp
qed

lemma match_here_bare:
  assumes l: "list_all is_word_char l"
    and c: "split_at_fence (c @ ''``'') = None"
  shows "match_here (fence @ l @ [CHR 0x0A] @ c @ fence @ rest) = Some (l, [], c, rest)"
proof -
  let ?tail = "[CHR 0x0A] @ c @ fence @ rest"
  let ?s = "fence @ l @ ?tail"
  have sf: "starts_with_fence ?s" and d3: "drop 3 ?s = l @ ?tail"
    by (simp_all add: starts_with_fence_def fence_def)
  have g1: "takeWhile is_word_char (l @ ?tail) = l"
    using l by (simp add: list_all_iff takeWhile_append2 not_word_lf)
  have r1: "dropWhile is_word_char (l @ ?tail) = ?tail"
    using l by (simp add: list_all_iff dropWhile_append2 not_word_lf)
  have r2: "skip_colon ?tail = ?tail"
    by simp
  have g2: "takeWhile (\<lambda>c. \<not> is_line_terminator c) ?tail = []"
    by (simp add: is_line_terminator_def)
  have r3: "dropWhile (\<lambda>c. \<not> is_line_terminator c) ?tail = CHR 0x0A # c @ fence @ rest"
    by (simp add: is_line_terminator_def)
  show ?thesis
    unfolding match_here_def Let_def d3 g1 r1 r2 g2 r3
    using sf split_at_fence_close [OF c, of rest] by simp
qed

lemma trim_Nil: "trim [] = []"
  by (simp add: trim_def)

lemma normalizeLanguage_unset: "normalizeLanguage ''text'' = normalizeLanguage []"
  by (simp add: normalizeLanguage_def get_property_def langMap_def toLowerCase_def
      object_prototype_names_def)

lemma exec_all_segment:
  assumes "wellformed_segment seg"
  shows "map (\<lambda>f. (f_path f, f_content f, f_language f))
           (concat (map file_of_match (exec_all (render_segment seg @ rest)))) =
         expected_of_segment seg @
         map (\<lambda>f. (f_path f, f_content f, f_language f))
           (concat (map file_of_match (exec_all rest)))"
proof (cases seg)
  case (Prose t)
  with assms show ?thesis by (simp add: exec_all_prose)
next
  case (Block l p c)
  with assms have m: "match_here (fence @ l @ '':'' @ p @ [CHR 0x0A] @ c @ fence @ rest) = Some (l, p, c, rest)"
    by (intro match_here_block) simp_all
  obtain x xs where cons: "fence @ l @ '':'' @ p @ [CHR 0x0A] @ c @ fence @ rest = x # xs"
    by (simp add: fence_def)
  have "exec_all (fence @ l @ '':'' @ p @ [CHR 0x0A] @ c @ fence @ rest) = (l, p, c) # exec_all rest"
    using m unfolding cons by simp
  then show ?thesis
    using Block by (simp add: file_of_match_def Let_def normalizeLanguage_unset)
next
  case (Bare l c)
  with assms have m: "match_here (fence @ l @ [CHR 0x0A] @ c @ fence @ rest) = Some (l, [], c, rest)"
    by (intro match_here_bare) simp_all
  obtain x xs where cons: "fence @ l @ [CHR 0x0A] @ c @ fence @ rest = x # xs"
    by (simp add: fence_def)
  have "exec_all (fence @ l @ [CHR 0x0A] @ c @ fence @ rest) = (l, [], c) # exec_all rest"
    using m unfolding cons by simp
  then show ?thesis
    using Bare by (simp add: file_of_match_def Let_def trim_Nil)
qed

text \<open>
  Claim C1, as amended. For a response made of well-formed prose and blocks, the parser
  extracts exactly the expected files: one per block whose header path and whose interior
  are not blank, with the trimmed path, the trimmed interior and the normalized language,
  in the order of the blocks; blocks with a blank path or a blank interior, and blocks
  whose header has no path, yield nothing.
\<close>

theorem parse_wellformed_response:
  assumes "list_all wellformed_segment segs"
  shows "extracted_files (render segs) = expected_files segs"
  using assms
proof (induction segs)
  case Nil
  show ?case
    by (simp add: extracted_files_def render_def expected_files_def parseFilesFromResponse_def)
next
  case (Cons seg segs)
  then have wf: "wellformed_segment seg" and IH: "extracted_files (render segs) = expected_files segs"
    by simp_all
  show ?case
    using exec_all_segment [OF wf, of "render segs"] IH
    by (simp add: extracted_files_def render_def expected_files_def parseFilesFromResponse_def)
qed

text \<open>
  Claim C1 as stated fails in three ways. When the language of a header is not a run of
  word characters, group 1 stops at the first other character and the rest of the header
  becomes the path. When the header line ends in a carriage return, \<open>.\<close> does not
  match it and the block is not found. When the prose holds a run of three backquotes,
  the pattern opens a block there and the block that follows is lost.
\<close>

theorem parse_language_plus_counterexample:
  "extracted_files (render [Block ''c++'' ''main.cpp'' ''int x;'']) =
     [(''++:main.cpp'', ''int x;'', Str ''text'')] \<and>
   extracted_files (render [Block ''c++'' ''main.cpp'' ''int x;'']) \<noteq>
     expected_files [Block ''c++'' ''main.cpp'' ''int x;''] \<and>
   extracted_files (render [Block ''js'' (''a.js'' @ [CHR 0x0D]) ''let x;'']) = [] \<and>
   expected_files [Block ''js'' (''a.js'' @ [CHR 0x0D]) ''let x;''] =
     [(''a.js'', ''let x;'', Str ''javascript'')] \<and>
   extracted_files (render [Prose (''Use ```npm start``` to run.'' @ [CHR 0x0A]),
                            Block ''js'' ''a.js'' ''let x;'']) = [] \<and>
   expected_files [Prose (''Use ```npm start``` to run.'' @ [CHR 0x0A]),
                   Block ''js'' ''a.js'' ''let x;''] =
     [(''a.js'', ''let x;'', Str ''javascript'')]"
  by code_simp

theorem parse_wellformed_response_witness:
  "list_all wellformed_segment
     [Prose ''Two files: '', Block ''js'' ''src/a.js'' (''let x = `a`;'' @ [CHR 0x0A]),
      Bare ''sh'' ''npm start'', Block ''py'' '''' ''pass'', Block '''' '' notes.md '' ''hi'']
   \<and> extracted_files (render
     [Prose ''Two files: '', Block ''js'' ''src/a.js'' (''let x = `a`;'' @ [CHR 0x0A]),
      Bare ''sh'' ''npm start'', Block ''py'' '''' ''pass'', Block '''' '' notes.md '' ''hi''])
     = [(''src/a.js'', ''let x = `a`;'', Str ''javascript''), (''notes.md'', ''hi'', Str ''text'')]"
proof -
  have wf: "list_all wellformed_segment
     [Prose ''Two files: '', Block ''js'' ''src/a.js'' (''let x = `a`;'' @ [CHR 0x0A]),
      Bare ''sh'' ''npm start'', Block ''py'' '''' ''pass'', Block '''' '' notes.md '' ''hi'']"
    by code_simp
  have ex: "expected_files
     [Prose ''Two files: '', Block ''js'' ''src/a.js'' (''let x = `a`;'' @ [CHR 0x0A]),
      Bare ''sh'' ''npm start'', Block ''py'' '''' ''pass'', Block '''' '' notes.md '' ''hi'']
     = [(''src/a.js'', ''let x = `a`;'', Str ''javascript''), (''notes.md'', ''hi'', Str ''text'')]"
    by code_simp
  show ?thesis
    using wf parse_wellformed_response [OF wf] ex by simp
qed

lemma normalizeLanguage_canonical:
  "normalizeLanguage ''javascript'' = Str ''javascript''"
  "normalizeLanguage ''typescript'' = Str ''typescript''"
  "normalizeLanguage ''python'' = Str ''python''"
  "normalizeLanguage ''json'' = Str ''json''"
  "normalizeLanguage ''html'' = Str ''html''"
  "normalizeLanguage ''css'' = Str ''css''"
  "normalizeLanguage ''text'' = Str ''text''"
  by (simp_all add: normalizeLanguage_def get_property_def langMap_def toLowerCase_def
      upper_chars_def lower_chars_def object_prototype_names_def)

lemma normalizeLanguage_range:
  "normalizeLanguage s = Str t \<Longrightarrow>
     t \<in> {''javascript'', ''typescript'', ''python'', ''json'', ''html'', ''css'', ''markdown'', ''text''}"
  unfolding normalizeLanguage_def get_property_def
  by (cases "map_of langMap (toLowerCase s)")
     (auto simp: langMap_def split: if_splits)

lemma toLowerCase_no_upper:
  assumes "c \<in> set (toLowerCase s)"
  shows "c \<notin> set ''ABCDEFGHIJKLMNOPQRSTUVWXYZ''"
proof -
  from assms obtain x where c: "c = (case map_of (zip upper_chars lower_chars) x of Some d \<Rightarrow> d | None \<Rightarrow> x)"
    by (auto simp: toLowerCase_def)
  show ?thesis
  proof (cases "map_of (zip upper_chars lower_chars) x")
    case None
    then have "x \<notin> fst ` set (zip upper_chars lower_chars)"
      by (simp add: map_of_eq_None_iff)
    moreover have "length upper_chars = length lower_chars"
      by (simp add: upper_chars_def lower_chars_def)
    then have "map fst (zip upper_chars lower_chars) = upper_chars"
      by (rule map_fst_zip)
    then have "fst ` set (zip upper_chars lower_chars) = set upper_chars"
      by (metis set_map)
    ultimately have "x \<notin> set upper_chars"
      by simp
    with c None show ?thesis
      by (auto simp: upper_chars_def)
  next
    case (Some d)
    then have "d \<in> set lower_chars"
      by (meson map_of_SomeD set_zip_rightD)
    with c Some show ?thesis
      by (auto simp: lower_chars_def)
  qed
qed

lemma inherited_only_constructor:
  assumes "toLowerCase s \<in> set object_prototype_names"
  shows "toLowerCase s = ''constructor''"
proof (rule ccontr)
  assume n: "toLowerCase s \<noteq> ''constructor''"
  have u: "\<And>c. c \<in> set ''ABCDEFGHIJKLMNOPQRSTUVWXYZ'' \<Longrightarrow> c \<notin> set (toLowerCase s)"
    using toLowerCase_no_upper by blast
  from assms n consider
      "toLowerCase s = ''hasOwnProperty''" | "toLowerCase s = ''isPrototypeOf''"
    | "toLowerCase s = ''propertyIsEnumerable''" | "toLowerCase s = ''toLocaleString''"
    | "toLowerCase s = ''toString''" | "toLowerCase s = ''valueOf''"
    | "toLowerCase s = ''__defineGetter__''" | "toLowerCase s = ''__defineSetter__''"
    | "toLowerCase s = ''__lookupGetter__''" | "toLowerCase s = ''__lookupSetter__''"
    by (auto simp: object_prototype_names_def)
  then show False
  proof cases
    case 1 with u [of "CHR ''O''"] show ?thesis by simp
  next
    case 2 with u [of "CHR ''P''"] show ?thesis by simp
  next
    case 3 with u [of "CHR ''I''"] show ?thesis by simp
  next
    case 4 with u [of "CHR ''L''"] show ?thesis by simp
  next
    case 5 with u [of "CHR ''S''"] show ?thesis by simp
  next
    case 6 with u [of "CHR ''O''"] show ?thesis by simp
  next
    case 7 with u [of "CHR ''G''"] show ?thesis by simp
  next
    case 8 with u [of "CHR ''S''"] show ?thesis by simp
  next
    case 9 with u [of "CHR ''G''"] show ?thesis by simp
  next
    case 10 with u [of "CHR ''S''"] show ?thesis by simp
  qed
qed

lemma normalizeLanguage_total:
  "normalizeLanguage s \<in>
     {Str ''javascript'', Str ''typescript'', Str ''python'', Str ''json'', Str ''html'',
      Str ''css'', Str ''markdown'', Str ''text'', Inherited ''constructor''}"
proof (cases "map_of langMap (toLowerCase s)")
  case (Some v)
  then have "(toLowerCase s, v) \<in> set langMap" by (rule map_of_SomeD)
  then have "v \<in> {''javascript'', ''typescript'', ''python'', ''json'', ''html'', ''css'', ''markdown''}"
    by (auto simp: langMap_def)
  with Some show ?thesis
    by (auto simp: normalizeLanguage_def get_property_def)
next
  case None
  show ?thesis
  proof (cases "toLowerCase s \<in> set object_prototype_names")
    case True
    with None inherited_only_constructor [OF True] show ?thesis
      by (simp add: normalizeLanguage_def get_property_def)
  next
    case False
    with None show ?thesis
      by (simp add: normalizeLanguage_def get_property_def)
  qed
qed

text \<open>
  Claim C4, as amended. The function has a value for every string: one of eight tags or
  the member \<open>constructor\<close> of the prototype. The table entries map as written (\<open>md\<close>
  to \<open>markdown\<close>; the others as the claim says), an input whose lower-case form is
  neither a key of the table nor the name of a member of \<open>Object.prototype\<close> maps to
  \<open>text\<close>, and a tag other than \<open>markdown\<close> that the function returns is mapped to
  itself.
\<close>

theorem normalizeLanguage_table:
  "normalizeLanguage r \<in>
     {Str ''javascript'', Str ''typescript'', Str ''python'', Str ''json'', Str ''html'',
      Str ''css'', Str ''markdown'', Str ''text'', Inherited ''constructor''} \<and>
   normalizeLanguage ''js'' = Str ''javascript'' \<and>
   normalizeLanguage ''ts'' = Str ''typescript'' \<and>
   normalizeLanguage ''py'' = Str ''python'' \<and>
   normalizeLanguage ''json'' = Str ''json'' \<and>
   normalizeLanguage ''html'' = Str ''html'' \<and>
   normalizeLanguage ''css'' = Str ''css'' \<and>
   normalizeLanguage ''md'' = Str ''markdown'' \<and>
   (toLowerCase u \<notin> fst ` set langMap \<and> toLowerCase u \<notin> set object_prototype_names
      \<longrightarrow> normalizeLanguage u = Str ''text'') \<and>
   (normalizeLanguage s = Str t \<and> t \<noteq> ''markdown'' \<longrightarrow> normalizeLanguage t = Str t)"
proof -
  have unknown: "normalizeLanguage u = Str ''text''"
    if "toLowerCase u \<notin> fst ` set langMap" "toLowerCase u \<notin> set object_prototype_names"
  proof -
    from that(1) have "map_of langMap (toLowerCase u) = None"
      by (simp add: map_of_eq_None_iff)
    with that(2) show ?thesis
      by (simp add: normalizeLanguage_def get_property_def)
  qed
  have idem: "normalizeLanguage t = Str t" if "normalizeLanguage s = Str t" "t \<noteq> ''markdown''"
    using normalizeLanguage_range [OF that(1)] that(2)
    by (auto simp: normalizeLanguage_canonical)
  have "normalizeLanguage ''js'' = Str ''javascript''" "normalizeLanguage ''ts'' = Str ''typescript''"
    "normalizeLanguage ''py'' = Str ''python''" "normalizeLanguage ''md'' = Str ''markdown''"
    by (simp_all add: normalizeLanguage_def get_property_def langMap_def toLowerCase_def
        upper_chars_def lower_chars_def)
  with unknown idem normalizeLanguage_total [of r] show ?thesis
    by (simp add: normalizeLanguage_canonical)
qed

theorem normalizeLanguage_table_witness:
  "toLowerCase ''Rust'' \<notin> fst ` set langMap \<and>
   toLowerCase ''Rust'' \<notin> set object_prototype_names \<and>
   normalizeLanguage ''Rust'' = Str ''text'' \<and>
   normalizeLanguage ''TS'' = Str ''typescript'' \<and> ''typescript'' \<noteq> ''markdown'' \<and>
   normalizeLanguage ''typescript'' = Str ''typescript''"
proof -
  have low: "toLowerCase ''Rust'' = ''rust''"
    by (simp add: toLowerCase_def upper_chars_def lower_chars_def)
  have h1: "toLowerCase ''Rust'' \<notin> fst ` set langMap"
    and h2: "toLowerCase ''Rust'' \<notin> set object_prototype_names"
    unfolding low by (simp_all add: langMap_def object_prototype_names_def)
  have h3: "normalizeLanguage ''TS'' = Str ''typescript''"
    by (simp add: normalizeLanguage_def get_property_def langMap_def toLowerCase_def
        upper_chars_def lower_chars_def)
  show ?thesis
    using normalizeLanguage_table [of "''constructor''" "''Rust''" "''TS''" "''typescript''"] h1 h2 h3
    by simp
qed

text \<open>
  Claim C4 as stated fails at \<open>md\<close>, which does not pass through unchanged and whose
  image \<open>markdown\<close> is not a key of the table, and at \<open>constructor\<close>, which is not
  recognized and yet is not mapped to \<open>text\<close>.
\<close>

theorem normalizeLanguage_md_counterexample:
  "normalizeLanguage ''md'' \<noteq> Str ''md'' \<and>
   normalizeLanguage ''md'' = Str ''markdown'' \<and>
   normalizeLanguage ''markdown'' \<noteq> Str ''markdown'' \<and>
   normalizeLanguage ''constructor'' \<noteq> Str ''text''"
  by (simp add: normalizeLanguage_def get_property_def langMap_def toLowerCase_def
      upper_chars_def lower_chars_def object_prototype_names_def)

lemma trim_no_space_ends:
  assumes "trim s \<noteq> []"
  shows "\<not> is_space (hd (trim s)) \<and> \<not> is_space (last (trim s))"
proof -
  let ?d = "dropWhile is_space s"
  let ?e = "dropWhile is_space (rev ?d)"
  from assms have e: "?e \<noteq> []" by (simp add: trim_def)
  have d: "?d \<noteq> []"
  proof
    assume "?d = []"
    then have "?e = []" by (simp only: rev.simps dropWhile.simps)
    with e show False by contradiction
  qed
  have "last (trim s) = hd ?e"
    using e by (simp add: trim_def last_rev)
  moreover have "\<not> is_space (hd ?e)"
    using e by (rule hd_dropWhile)
  moreover have "hd (trim s) = last ?e"
    using e by (simp add: trim_def hd_rev)
  moreover have "last ?e = last (rev ?d)"
    using e by (metis append_Nil2 last_appendR takeWhile_dropWhile_id)
  moreover have "last (rev ?d) = hd ?d"
    using d by (simp add: last_rev)
  moreover have "\<not> is_space (hd ?d)"
    using d by (rule hd_dropWhile)
  ultimately show ?thesis by simp
qed

lemma trim_changes_trailing_space:
  assumes "s \<noteq> []" and "is_space (last s)" and "trim s \<noteq> []"
  shows "trim s \<noteq> s"
  using trim_no_space_ends [OF assms(3)] assms(2) by auto

lemma file_of_match_cases:
  "file_of_match (g1, g2, g3) =
     (if trim g2 \<noteq> [] \<and> trim g3 \<noteq> []
      then [\<lparr>f_name = basename (trim g2), f_path = trim g2, f_content = trim g3,
             f_language = normalizeLanguage (if g1 \<noteq> [] then g1 else ''text'')\<rparr>]
      else [])"
  by (simp add: file_of_match_def Let_def)

lemma files_of_matches:
  "map (\<lambda>f. (f_path f, f_content f)) (concat (map file_of_match ms)) =
     map (\<lambda>(g1, g2, g3). (trim g2, trim g3))
       (filter (\<lambda>(g1, g2, g3). trim g2 \<noteq> [] \<and> trim g3 \<noteq> []) ms)"
proof (induction ms)
  case Nil
  show ?case by simp
next
  case (Cons m ms)
  obtain g1 g2 g3 where m: "m = (g1, g2, g3)" by (cases m) auto
  show ?case
    unfolding m using Cons.IH by (simp add: file_of_match_cases)
qed

text \<open>
  Claim C10. The paths and contents of the extracted files are, in order, the trimmed
  group 2 and the trimmed interior (group 3) of the matches that have both non-empty.
  Every extracted file is the one file of a match of the response, its content is the
  trimmed interior of that same match, is not empty, neither begins nor ends with white
  space, and differs from the interior when the interior ends in a line feed.
\<close>

theorem content_is_trimmed:
  "map (\<lambda>f. (f_path f, f_content f)) (parseFilesFromResponse response) =
     map (\<lambda>(g1, g2, g3). (trim g2, trim g3))
       (filter (\<lambda>(g1, g2, g3). trim g2 \<noteq> [] \<and> trim g3 \<noteq> []) (exec_all response)) \<and>
   (f \<in> set (parseFilesFromResponse response) \<longrightarrow>
      f_content f \<noteq> [] \<and>
      \<not> is_space (hd (f_content f)) \<and> \<not> is_space (last (f_content f)) \<and>
      (\<exists>g1 g2 g3. (g1, g2, g3) \<in> set (exec_all response) \<and>
         file_of_match (g1, g2, g3) = [f] \<and> f_path f = trim g2 \<and> f_content f = trim g3 \<and>
         (last g3 = CHR 0x0A \<longrightarrow> f_content f \<noteq> g3)))"
proof (intro conjI impI)
  show "map (\<lambda>f. (f_path f, f_content f)) (parseFilesFromResponse response) =
     map (\<lambda>(g1, g2, g3). (trim g2, trim g3))
       (filter (\<lambda>(g1, g2, g3). trim g2 \<noteq> [] \<and> trim g3 \<noteq> []) (exec_all response))"
    by (simp add: parseFilesFromResponse_def files_of_matches)
next
  assume "f \<in> set (parseFilesFromResponse response)"
  then obtain g1 g2 g3 where m: "(g1, g2, g3) \<in> set (exec_all response)"
    and f: "f \<in> set (file_of_match (g1, g2, g3))"
    by (auto simp: parseFilesFromResponse_def)
  from f have one: "file_of_match (g1, g2, g3) = [f]"
    and pth: "f_path f = trim g2" and c: "f_content f = trim g3" and ne: "trim g3 \<noteq> []"
    by (auto simp: file_of_match_cases split: if_splits)
  from ne have g3: "g3 \<noteq> []" by (auto simp: trim_Nil)
  have nl: "last g3 = CHR 0x0A \<longrightarrow> trim g3 \<noteq> g3"
    using trim_changes_trailing_space [OF g3 _ ne] by (auto simp: is_space_def)
  from c ne show "f_content f \<noteq> []" by simp
  from c trim_no_space_ends [OF ne] show "\<not> is_space (hd (f_content f))" by simp
  from c trim_no_space_ends [OF ne] show "\<not> is_space (last (f_content f))" by simp
  from m one pth c nl
  show "\<exists>g1 g2 g3. (g1, g2, g3) \<in> set (exec_all response) \<and>
         file_of_match (g1, g2, g3) = [f] \<and> f_path f = trim g2 \<and> f_content f = trim g3 \<and>
         (last g3 = CHR 0x0A \<longrightarrow> f_content f \<noteq> g3)"
    by auto
qed

theorem content_is_trimmed_witness:
  "\<lparr>f_name = ''b.js'', f_path = ''b.js'', f_content = ''two'', f_language = Str ''javascript''\<rparr>
     \<in> set (parseFilesFromResponse
              (render [Block ''js'' ''a.js'' ([CHR 0x0A] @ ''one'' @ [CHR 0x0A]),
                       Block ''js'' ''b.js'' (''two'' @ [CHR 0x0A])])) \<and>
   exec_all (render [Block ''js'' ''a.js'' ([CHR 0x0A] @ ''one'' @ [CHR 0x0A]),
                     Block ''js'' ''b.js'' (''two'' @ [CHR 0x0A])]) =
     [(''js'', ''a.js'', [CHR 0x0A] @ ''one'' @ [CHR 0x0A]), (''js'', ''b.js'', ''two'' @ [CHR 0x0A])] \<and>
   map (\<lambda>f. (f_path f, f_content f))
     (parseFilesFromResponse
        (render [Block ''js'' ''a.js'' ([CHR 0x0A] @ ''one'' @ [CHR 0x0A]),
                 Block ''js'' ''b.js'' (''two'' @ [CHR 0x0A])])) =
     [(''a.js'', ''one''), (''b.js'', ''two'')]"
proof -
  let ?r = "render [Block ''js'' ''a.js'' ([CHR 0x0A] @ ''one'' @ [CHR 0x0A]),
                    Block ''js'' ''b.js'' (''two'' @ [CHR 0x0A])]"
  have mem: "\<lparr>f_name = ''b.js'', f_path = ''b.js'', f_content = ''two'', f_language = Str ''javascript''\<rparr>
     \<in> set (parseFilesFromResponse ?r)"
    by code_simp
  have ex: "exec_all ?r =
     [(''js'', ''a.js'', [CHR 0x0A] @ ''one'' @ [CHR 0x0A]), (''js'', ''b.js'', ''two'' @ [CHR 0x0A])]"
    by code_simp
  have rhs: "map (\<lambda>(g1, g2, g3). (trim g2, trim g3))
       (filter (\<lambda>(g1, g2, g3). trim g2 \<noteq> [] \<and> trim g3 \<noteq> []) (exec_all ?r)) =
     [(''a.js'', ''one''), (''b.js'', ''two'')]"
    by code_simp
  from content_is_trimmed
         [of ?r "\<lparr>f_name = ''b.js'', f_path = ''b.js'', f_content = ''two'',
                     f_language = Str ''javascript''\<rparr>"]
  have "map (\<lambda>f. (f_path f, f_content f)) (parseFilesFromResponse ?r) =
     map (\<lambda>(g1, g2, g3). (trim g2, trim g3))
       (filter (\<lambda>(g1, g2, g3). trim g2 \<noteq> [] \<and> trim g3 \<noteq> []) (exec_all ?r))"
    by blast
  from this rhs have "map (\<lambda>f. (f_path f, f_content f)) (parseFilesFromResponse ?r) =
     [(''a.js'', ''one''), (''b.js'', ''two'')]"
    by (rule trans)
  with mem ex show ?thesis by blast
qed

section \<open>The project store: proofs\<close>

lemma find_project_update:
  assumes "\<And>p. p_id (g p) = p_id p"
  shows "find_project j (update_project i g ps) =
         (if j = i then map_option g (find_project i ps) else find_project j ps)"
  using assms by (induction ps) (auto simp: find_project_def)

lemma update_project_absent:
  "find_project i ps = None \<Longrightarrow> update_project i g ps = ps"
  by (induction ps) (auto simp: find_project_def split: if_splits)

lemma update_project_twice:
  assumes "\<And>p. p_id (g p) = p_id p"
  shows "update_project i h (update_project i g ps) = update_project i (\<lambda>p. h (g p)) ps"
  using assms by (induction ps) auto

lemma update_project_split:
  assumes "find_project i ps = Some p"
  shows "\<exists>before after. ps = before @ p # after \<and> (\<forall>q \<in> set before. p_id q \<noteq> i) \<and>
           (\<forall>g. update_project i g ps = before @ g p # after)"
  using assms
proof (induction ps)
  case Nil
  then show ?case by (simp add: find_project_def)
next
  case (Cons q qs)
  show ?case
  proof (cases "p_id q = i")
    case True
    with Cons.prems have "q = p" by (simp add: find_project_def)
    with True have "q # qs = [] @ p # qs \<and> (\<forall>r \<in> set []. p_id r \<noteq> i) \<and>
        (\<forall>g. update_project i g (q # qs) = [] @ g p # qs)"
      by simp
    then show ?thesis by blast
  next
    case False
    with Cons.prems have "find_project i qs = Some p" by (simp add: find_project_def)
    from Cons.IH [OF this] obtain before after where
      "qs = before @ p # after" "\<forall>r \<in> set before. p_id r \<noteq> i"
      "\<forall>g. update_project i g qs = before @ g p # after"
      by blast
    with False have "q # qs = (q # before) @ p # after \<and> (\<forall>r \<in> set (q # before). p_id r \<noteq> i) \<and>
        (\<forall>g. update_project i g (q # qs) = (q # before) @ g p # after)"
      by simp
    then show ?thesis by blast
  qed
qed

lemma status_of_set_status:
  "status_of j (set_status i s st) =
     (if j = i then map_option (\<lambda>_. s) (find_project i (projects st)) else status_of j st)"
  by (simp add: status_of_def set_status_def find_project_update option.map_comp comp_def)

text \<open>
  Claim C6, as amended. For a project of the store with no registered process, or whose
  registered child has terminated already or exits on SIGTERM, \<open>stopProject\<close> returns
  its message and raises nothing, the status of the project afterwards is \<open>stopped\<close>,
  and a second call in succession returns the same and leaves the same state as the
  first. When the registered child is alive and ignores the signal, the call stays
  pending: the signal has been sent, the binding is kept and the status is not changed.
\<close>

theorem stopProject_idempotent:
  "(find_project i (projects st) \<noteq> None \<and>
    (\<forall>process. runningProcesses st i = Some process \<longrightarrow>
       cp_terminated process \<or> \<not> cp_ignores_sigterm process) \<longrightarrow>
      fst (stopProject i st) = Some (Inr ''Project stopped'') \<and>
      status_of i (snd (stopProject i st)) = Some Stopped \<and>
      stopProject i (snd (stopProject i st)) = stopProject i st) \<and>
   (find_project i (projects st) \<noteq> None \<and> runningProcesses st i = Some child \<and>
    \<not> cp_terminated child \<and> cp_ignores_sigterm child \<longrightarrow>
      stopProject i st = (None, st\<lparr>signalled := signalled st @ [cp_pid child]\<rparr>))"
proof -
  have returns: "fst (stopProject i st) = Some (Inr ''Project stopped'') \<and>
      status_of i (snd (stopProject i st)) = Some Stopped \<and>
      stopProject i (snd (stopProject i st)) = stopProject i st"
    if a: "find_project i (projects st) \<noteq> None \<and>
      (\<forall>process. runningProcesses st i = Some process \<longrightarrow>
         cp_terminated process \<or> \<not> cp_ignores_sigterm process)"
  proof -
    from a obtain p where p: "find_project i (projects st) = Some p" by auto
    show ?thesis
    proof (cases "runningProcesses st i")
      case None
      with p show ?thesis
        by (simp add: stopProject_def status_of_def set_status_def find_project_update
            update_project_twice)
    next
      case (Some process)
      show ?thesis
      proof (cases "cp_terminated process")
        case True
        with p Some show ?thesis
          by (simp add: stopProject_def status_of_def set_status_def find_project_update
              update_project_twice)
      next
        case False
        with a Some have "\<not> cp_ignores_sigterm process" by blast
        with p Some False show ?thesis
          by (simp add: stopProject_def status_of_def set_status_def find_project_update
              update_project_twice)
      qed
    qed
  qed
  have pending: "stopProject i st = (None, st\<lparr>signalled := signalled st @ [cp_pid child]\<rparr>)"
    if "find_project i (projects st) \<noteq> None \<and> runningProcesses st i = Some child \<and>
      \<not> cp_terminated child \<and> cp_ignores_sigterm child"
    using that by (auto simp: stopProject_def)
  from returns pending show ?thesis by blast
qed

text \<open>
  Failures that are errors of the runtime are turned into output by the inner \<open>catch\<close>
  blocks: with such an environment the build of a project of the store returns, also
  when the installer fails.
\<close>

lemma build_steps_completes:
  assumes "stat_error env (p_path project @ ''/package.json'') \<noteq> Some ThrownNullish"
    and "command_result env (shell env) (shell_args env ''npm install'') (p_path project) \<noteq>
           CommandThrew ThrownNullish"
  shows "\<exists>output. build_steps env project = Inr output"
  using assms
  by (auto simp: build_steps_def split: option.splits command_outcome.splits thrown.splits)

lemma buildProject_returns:
  assumes "find_project i (projects st) = Some project"
    and "stat_error env (p_path project @ ''/package.json'') \<noteq> Some ThrownNullish"
    and "command_result env (shell env) (shell_args env ''npm install'') (p_path project) \<noteq>
           CommandThrew ThrownNullish"
  shows "\<exists>out. fst (buildProject env i st) = Inr out"
proof -
  from build_steps_completes [OF assms(2,3)] obtain out where "build_steps env project = Inr out"
    by blast
  with assms(1) show ?thesis
    by (simp add: buildProject_def Let_def)
qed

text \<open>
  Claim C7. For an id that is not in the store \<open>buildProject\<close> raises \<open>NotFound\<close> and
  writes nothing. For an id of the store it writes twice: after the first write the status
  of the project is \<open>building\<close>, after the second it is \<open>created\<close> when the call returns
  and \<open>error\<close> when it raises; the status of every other id is as before.
\<close>

theorem buildProject_status:
  "(find_project i (projects st) = None \<longrightarrow> buildProject env i st = (Inl NotFound, [])) \<and>
   (find_project i (projects st) \<noteq> None \<longrightarrow>
      (\<exists>r st1 st2.
         buildProject env i st = (r, [st1, st2]) \<and>
         status_of i st1 = Some Building \<and>
         (case r of Inr output \<Rightarrow> status_of i st2 = Some Created
                  | Inl e \<Rightarrow> status_of i st2 = Some Error) \<and>
         (\<forall>j. j \<noteq> i \<longrightarrow> status_of j st1 = status_of j st \<and> status_of j st2 = status_of j st)))"
proof (intro conjI impI)
  assume "find_project i (projects st) = None"
  then show "buildProject env i st = (Inl NotFound, [])"
    by (simp add: buildProject_def)
next
  assume "find_project i (projects st) \<noteq> None"
  then obtain p where p: "find_project i (projects st) = Some p" by auto
  let ?st1 = "set_status i Building st"
  have b: "status_of i ?st1 = Some Building"
    using p by (simp add: status_of_set_status)
  have o1: "\<forall>j. j \<noteq> i \<longrightarrow> status_of j ?st1 = status_of j st"
    by (simp add: status_of_set_status)
  show "\<exists>r st1 st2.
         buildProject env i st = (r, [st1, st2]) \<and>
         status_of i st1 = Some Building \<and>
         (case r of Inr output \<Rightarrow> status_of i st2 = Some Created
                  | Inl e \<Rightarrow> status_of i st2 = Some Error) \<and>
         (\<forall>j. j \<noteq> i \<longrightarrow> status_of j st1 = status_of j st \<and> status_of j st2 = status_of j st)"
  proof (cases "build_steps env p")
    case (Inl e)
    let ?st2 = "set_status i Error ?st1"
    have "buildProject env i st = (Inl ReferenceError, [?st1, ?st2])"
      using p Inl by (simp add: buildProject_def Let_def)
    moreover have "status_of i ?st2 = Some Error"
      using p by (simp add: status_of_def set_status_def find_project_update)
    moreover have "\<forall>j. j \<noteq> i \<longrightarrow> status_of j ?st2 = status_of j st"
      by (simp add: status_of_set_status)
    ultimately show ?thesis
      using b o1 by (intro exI [of _ "Inl ReferenceError"] exI [of _ ?st1] exI [of _ ?st2]) simp
  next
    case (Inr out)
    let ?st2 = "set_status i Created ?st1"
    let ?r = "Inr (if out \<noteq> [] then out
                   else ''[ok] Build completed (no dependencies to install)'') :: error + string"
    have "buildProject env i st = (?r, [?st1, ?st2])"
      using p Inr by (simp add: buildProject_def Let_def)
    moreover have "status_of i ?st2 = Some Created"
      using p by (simp add: status_of_def set_status_def find_project_update)
    moreover have "\<forall>j. j \<noteq> i \<longrightarrow> status_of j ?st2 = status_of j st"
      by (simp add: status_of_set_status)
    ultimately show ?thesis
      using b o1 by (intro exI [of _ ?r] exI [of _ ?st1] exI [of _ ?st2]) simp
  qed
qed

lemma demo_find: "find_project ''p1'' (projects demo_store) = Some demo_project"
  by (simp add: demo_store_def demo_project_def find_project_def)

lemma demo_running_find:
  "find_project ''p1'' (projects demo_running_store) = Some demo_project"
  by (simp add: demo_running_store_def demo_store_def demo_project_def find_project_def)

lemma demo_stubborn_find:
  "find_project ''p1'' (projects demo_stubborn_store) = Some demo_project"
  by (simp add: demo_stubborn_store_def demo_store_def demo_project_def find_project_def)

theorem stopProject_idempotent_witness:
  "find_project ''p1'' (projects demo_store) \<noteq> None \<and>
   runningProcesses demo_store ''p1'' = None \<and>
   fst (stopProject ''p1'' demo_store) = Some (Inr ''Project stopped'') \<and>
   status_of ''p1'' (snd (stopProject ''p1'' demo_store)) = Some Stopped \<and>
   stopProject ''p1'' (snd (stopProject ''p1'' demo_store)) = stopProject ''p1'' demo_store \<and>
   find_project ''p1'' (projects demo_running_store) \<noteq> None \<and>
   runningProcesses demo_running_store ''p1'' =
     Some \<lparr>cp_pid = 7, cp_terminated = False, cp_ignores_sigterm = False\<rparr> \<and>
   fst (stopProject ''p1'' demo_running_store) = Some (Inr ''Project stopped'') \<and>
   status_of ''p1'' (snd (stopProject ''p1'' demo_running_store)) = Some Stopped \<and>
   stopProject ''p1'' (snd (stopProject ''p1'' demo_running_store)) =
     stopProject ''p1'' demo_running_store \<and>
   find_project ''p1'' (projects demo_stubborn_store) \<noteq> None \<and>
   runningProcesses demo_stubborn_store ''p1'' =
     Some \<lparr>cp_pid = 7, cp_terminated = False, cp_ignores_sigterm = True\<rparr> \<and>
   stopProject ''p1'' demo_stubborn_store =
     (None, demo_stubborn_store\<lparr>signalled := signalled demo_stubborn_store @ [7]\<rparr>)"
proof -
  have f1: "find_project ''p1'' (projects demo_store) \<noteq> None"
    by (simp add: demo_find)
  have r1: "runningProcesses demo_store ''p1'' = None"
    by (simp add: demo_store_def initial_store_def)
  have f2: "find_project ''p1'' (projects demo_running_store) \<noteq> None"
    by (simp add: demo_running_find)
  have r2: "runningProcesses demo_running_store ''p1'' =
     Some \<lparr>cp_pid = 7, cp_terminated = False, cp_ignores_sigterm = False\<rparr>"
    by (simp add: demo_running_store_def)
  have f3: "find_project ''p1'' (projects demo_stubborn_store) \<noteq> None"
    by (simp add: demo_stubborn_find)
  have r3: "runningProcesses demo_stubborn_store ''p1'' =
     Some \<lparr>cp_pid = 7, cp_terminated = False, cp_ignores_sigterm = True\<rparr>"
    by (simp add: demo_stubborn_store_def)
  from stopProject_idempotent [of "''p1''" demo_store] f1 r1
  have c1: "fst (stopProject ''p1'' demo_store) = Some (Inr ''Project stopped'') \<and>
      status_of ''p1'' (snd (stopProject ''p1'' demo_store)) = Some Stopped \<and>
      stopProject ''p1'' (snd (stopProject ''p1'' demo_store)) = stopProject ''p1'' demo_store"
    by simp
  from stopProject_idempotent [of "''p1''" demo_running_store] f2 r2
  have c2: "fst (stopProject ''p1'' demo_running_store) = Some (Inr ''Project stopped'') \<and>
      status_of ''p1'' (snd (stopProject ''p1'' demo_running_store)) = Some Stopped \<and>
      stopProject ''p1'' (snd (stopProject ''p1'' demo_running_store)) =
        stopProject ''p1'' demo_running_store"
    by simp
  from stopProject_idempotent
         [of "''p1''" demo_stubborn_store
             "\<lparr>cp_pid = 7, cp_terminated = False, cp_ignores_sigterm = True\<rparr>"] f3 r3
  have c3: "stopProject ''p1'' demo_stubborn_store =
     (None, demo_stubborn_store\<lparr>signalled := signalled demo_stubborn_store @ [7]\<rparr>)"
    by simp
  from f1 r1 c1 f2 r2 c2 f3 r3 c3 show ?thesis by blast
qed

text \<open>
  Claim C6 as stated fails at a project whose registered child is alive and ignores
  SIGTERM: the call does not return, and the status stays what it was.
\<close>

theorem stopProject_stubborn_counterexample:
  "find_project ''p1'' (projects demo_stubborn_store) \<noteq> None \<and>
   fst (stopProject ''p1'' demo_stubborn_store) = None \<and>
   status_of ''p1'' (snd (stopProject ''p1'' demo_stubborn_store)) = Some Created \<and>
   runningProcesses (snd (stopProject ''p1'' demo_stubborn_store)) ''p1'' \<noteq> None"
  by (simp add: stopProject_def demo_stubborn_store_def demo_store_def demo_project_def
      initial_store_def find_project_def status_of_def)

theorem buildProject_status_witness:
  "find_project ''p1'' (projects demo_store) \<noteq> None \<and>
   find_project ''p2'' (projects demo_store) = None \<and>
   buildProject demo_env ''p2'' demo_store = (Inl NotFound, []) \<and>
   fst (buildProject demo_env ''p1'' demo_store) =
     Inr ([CHR 0x0A] @ ''[ok] Dependencies installed successfully'' @ [CHR 0x0A]) \<and>
   map (status_of ''p1'') (snd (buildProject demo_env ''p1'' demo_store)) =
     [Some Building, Some Created] \<and>
   fst (buildProject demo_nullish_env ''p1'' demo_store) = Inl ReferenceError \<and>
   map (status_of ''p1'') (snd (buildProject demo_nullish_env ''p1'' demo_store)) =
     [Some Building, Some Error]"
proof -
  have h1: "find_project ''p1'' (projects demo_store) \<noteq> None"
    by (simp add: demo_find)
  have h2: "find_project ''p2'' (projects demo_store) = None"
    by (simp add: demo_store_def demo_project_def find_project_def)
  have r: "fst (buildProject demo_env ''p1'' demo_store) =
             Inr ([CHR 0x0A] @ ''[ok] Dependencies installed successfully'' @ [CHR 0x0A])"
    by (simp add: buildProject_def Let_def demo_find build_steps_def demo_project_def
        demo_env_def shell_def shell_args_def)
  have n: "fst (buildProject demo_nullish_env ''p1'' demo_store) = Inl ReferenceError"
    by (simp add: buildProject_def Let_def demo_find build_steps_def demo_project_def
        demo_nullish_env_def demo_env_def)
  from buildProject_status [of "''p1''" demo_store demo_env] h1
  obtain r1 s1 s2 where b1: "buildProject demo_env ''p1'' demo_store = (r1, [s1, s2])"
    and b2: "status_of ''p1'' s1 = Some Building"
    and b3: "case r1 of Inr output \<Rightarrow> status_of ''p1'' s2 = Some Created
                      | Inl e \<Rightarrow> status_of ''p1'' s2 = Some Error"
    by blast
  from b1 r have "r1 = Inr ([CHR 0x0A] @ ''[ok] Dependencies installed successfully'' @ [CHR 0x0A])"
    by simp
  with b3 have "status_of ''p1'' s2 = Some Created" by simp
  with b1 b2 have c1: "map (status_of ''p1'') (snd (buildProject demo_env ''p1'' demo_store)) =
     [Some Building, Some Created]"
    by simp
  from buildProject_status [of "''p1''" demo_store demo_nullish_env] h1
  obtain r2 t1 t2 where d1: "buildProject demo_nullish_env ''p1'' demo_store = (r2, [t1, t2])"
    and d2: "status_of ''p1'' t1 = Some Building"
    and d3: "case r2 of Inr output \<Rightarrow> status_of ''p1'' t2 = Some Created
                      | Inl e \<Rightarrow> status_of ''p1'' t2 = Some Error"
    by blast
  from d1 n have "r2 = Inl ReferenceError" by simp
  with d3 have "status_of ''p1'' t2 = Some Error" by simp
  with d1 d2 have c2: "map (status_of ''p1'') (snd (buildProject demo_nullish_env ''p1'' demo_store)) =
     [Some Building, Some Error]"
    by simp
  from buildProject_status [of "''p2''" demo_store demo_env] h2
  have c3: "buildProject demo_env ''p2'' demo_store = (Inl NotFound, [])"
    by blast
  from h1 h2 r n c1 c2 c3 show ?thesis by blast
qed

lemma delete_route_never_stops:
  "delete_route i st = st\<lparr>projects := filter (\<lambda>project. p_id project \<noteq> i) (projects st)\<rparr>"
proof -
  have "find_project i (filter (\<lambda>project. p_id project \<noteq> i) (projects st)) = None"
    by (simp add: find_project_def find_None_iff)
  then show ?thesis
    by (simp add: delete_route_def stopProject_def)
qed

text \<open>
  Claim C3 at a store whose project \<open>p1\<close> has a running process: the delete route
  removes the project from the listing, but the process stays registered and is sent no
  signal, where \<open>stopProject\<close> on the same store signals it and removes the binding.
\<close>

theorem delete_route_leaves_process:
  "runningProcesses demo_running_store ''p1'' =
     Some \<lparr>cp_pid = 7, cp_terminated = False, cp_ignores_sigterm = False\<rparr> \<and>
   projects (delete_route ''p1'' demo_running_store) = [] \<and>
   runningProcesses (delete_route ''p1'' demo_running_store) ''p1'' =
     Some \<lparr>cp_pid = 7, cp_terminated = False, cp_ignores_sigterm = False\<rparr> \<and>
   signalled (delete_route ''p1'' demo_running_store) = [] \<and>
   signalled (snd (stopProject ''p1'' demo_running_store)) = [7] \<and>
   runningProcesses (snd (stopProject ''p1'' demo_running_store)) ''p1'' = None"
  by (simp add: delete_route_never_stops stopProject_def demo_running_store_def demo_store_def
      demo_project_def initial_store_def find_project_def set_status_def)

lemma repeated_parse:
  "parseFilesFromResponse repeated_response =
     [\<lparr>f_name = ''a.js'', f_path = ''a.js'', f_content = ''one'', f_language = Str ''javascript''\<rparr>,
      \<lparr>f_name = ''a.js'', f_path = ''a.js'', f_content = ''two'', f_language = Str ''javascript''\<rparr>]"
  by code_simp

text \<open>
  Claim C5 at a response with two blocks for the path \<open>a.js\<close> and no current project: the
  project created lists that path twice.
\<close>

theorem create_keeps_repeated_paths:
  "map (\<lambda>p. map f_path (p_files p))
     (projects (chat_route demo_env repeated_response ''counter app'' None initial_store)) =
   [[''a.js'', ''a.js'']]"
  by (simp add: chat_route_def repeated_parse createOrUpdateProject_def demo_env_def
      initial_store_def Let_def)

lemma upsert_file_paths:
  "map f_path (upsert_file newFile fs) =
     (if f_path newFile \<in> set (map f_path fs) then map f_path fs
      else map f_path fs @ [f_path newFile])"
  by (induction fs) auto

lemma upsert_file_distinct:
  "distinct (map f_path fs) \<Longrightarrow> distinct (map f_path (upsert_file newFile fs))"
  by (simp add: upsert_file_paths)

lemma upsert_files_distinct:
  "distinct (map f_path fs) \<Longrightarrow> distinct (map f_path (upsert_files files fs))"
  by (induction files arbitrary: fs) (simp_all add: upsert_file_distinct)

lemma upsert_file_replaces:
  "f_path newFile \<notin> f_path ` set pre \<Longrightarrow> f_path f = f_path newFile \<Longrightarrow>
   upsert_file newFile (pre @ f # post) = pre @ newFile # post"
  by (induction pre) auto

lemma upsert_file_appends:
  "f_path newFile \<notin> f_path ` set fs \<Longrightarrow> upsert_file newFile fs = fs @ [newFile]"
  by (induction fs) auto

lemma set_content_untracked:
  "filePath \<notin> f_path ` set fs \<Longrightarrow> set_content filePath content fs = fs"
  by (induction fs) auto

lemma set_content_tracked:
  "filePath \<notin> f_path ` set pre \<Longrightarrow> f_path f = filePath \<Longrightarrow>
   set_content filePath content (pre @ f # post) = pre @ f\<lparr>f_content := content\<rparr> # post"
  by (induction pre) auto

text \<open>
  Claim C9. \<open>updateFileContent\<close> raises \<open>NotFound\<close> for an id that is not in the store and
  changes nothing. Otherwise, when the write succeeds, it is a write of the content at the
  root of the project, \<open>/\<close> and the given path; in memory the first project with that id
  gets a new file list and nothing else changes: the list is the old one when no entry has
  the path, and the old one with the content of the first entry of that path replaced
  otherwise.
\<close>

theorem updateFileContent_frame:
  "(find_project i (projects st) = None \<longrightarrow>
      updateFileContent env i filePath content st = (Inl NotFound, st)) \<and>
   (find_project i (projects st) = Some project \<and>
    fs_ok env (WriteTextFile (p_path project @ ''/'' @ filePath) content) \<longrightarrow>
      (\<exists>before after files'.
         projects st = before @ project # after \<and> (\<forall>q \<in> set before. p_id q \<noteq> i) \<and>
         updateFileContent env i filePath content st =
           (Inr (),
            st\<lparr>fs_log := fs_log st @ [WriteTextFile (p_path project @ ''/'' @ filePath) content],
               projects := before @ project\<lparr>p_files := files'\<rparr> # after\<rparr>) \<and>
         (filePath \<notin> f_path ` set (p_files project) \<longrightarrow> files' = p_files project) \<and>
         (\<forall>pre f post. p_files project = pre @ f # post \<and> f_path f = filePath \<and>
              filePath \<notin> f_path ` set pre \<longrightarrow>
            files' = pre @ f\<lparr>f_content := content\<rparr> # post)))"
proof (intro conjI impI)
  assume "find_project i (projects st) = None"
  then show "updateFileContent env i filePath content st = (Inl NotFound, st)"
    by (simp add: updateFileContent_def)
next
  assume a: "find_project i (projects st) = Some project \<and>
    fs_ok env (WriteTextFile (p_path project @ ''/'' @ filePath) content)"
  then obtain before after where sp: "projects st = before @ project # after"
    "\<forall>q \<in> set before. p_id q \<noteq> i"
    "\<forall>g. update_project i g (projects st) = before @ g project # after"
    using update_project_split [of i "projects st" project] by blast
  let ?files = "set_content filePath content (p_files project)"
  have run: "updateFileContent env i filePath content st =
           (Inr (),
            st\<lparr>fs_log := fs_log st @ [WriteTextFile (p_path project @ ''/'' @ filePath) content],
               projects := before @ project\<lparr>p_files := ?files\<rparr> # after\<rparr>)"
    using a sp(3) by (simp add: updateFileContent_def full_path_def)
  have un: "filePath \<notin> f_path ` set (p_files project) \<longrightarrow> ?files = p_files project"
    by (simp add: set_content_untracked)
  have tr: "\<forall>pre f post. p_files project = pre @ f # post \<and> f_path f = filePath \<and>
              filePath \<notin> f_path ` set pre \<longrightarrow>
            ?files = pre @ f\<lparr>f_content := content\<rparr> # post"
    by (auto simp: set_content_tracked)
  from sp(1,2) run un tr
  show "\<exists>before after files'.
         projects st = before @ project # after \<and> (\<forall>q \<in> set before. p_id q \<noteq> i) \<and>
         updateFileContent env i filePath content st =
           (Inr (),
            st\<lparr>fs_log := fs_log st @ [WriteTextFile (p_path project @ ''/'' @ filePath) content],
               projects := before @ project\<lparr>p_files := files'\<rparr> # after\<rparr>) \<and>
         (filePath \<notin> f_path ` set (p_files project) \<longrightarrow> files' = p_files project) \<and>
         (\<forall>pre f post. p_files project = pre @ f # post \<and> f_path f = filePath \<and>
              filePath \<notin> f_path ` set pre \<longrightarrow>
            files' = pre @ f\<lparr>f_content := content\<rparr> # post)"
    by blast
qed

theorem updateFileContent_frame_witness:
  "find_project ''p1'' (projects demo_store) = Some demo_project \<and>
   fs_ok demo_env (WriteTextFile (p_path demo_project @ ''/'' @ ''src/util.js'') ''export default 1'') \<and>
   fst (updateFileContent demo_env ''p1'' ''src/util.js'' ''export default 1'' demo_store) = Inr () \<and>
   find_project ''p2'' (projects demo_store) = None \<and>
   updateFileContent demo_env ''p2'' ''src/util.js'' ''export default 1'' demo_store =
     (Inl NotFound, demo_store)"
proof -
  have h1: "find_project ''p1'' (projects demo_store) = Some demo_project"
    by (rule demo_find)
  have h2: "fs_ok demo_env (WriteTextFile (p_path demo_project @ ''/'' @ ''src/util.js'') ''export default 1'')"
    by (simp add: demo_env_def)
  have h3: "find_project ''p2'' (projects demo_store) = None"
    by (simp add: demo_store_def demo_project_def find_project_def)
  from updateFileContent_frame
         [of "''p1''" demo_store demo_env "''src/util.js''" "''export default 1''" demo_project] h1 h2
  have c1: "fst (updateFileContent demo_env ''p1'' ''src/util.js'' ''export default 1'' demo_store) = Inr ()"
    by auto
  from updateFileContent_frame
         [of "''p2''" demo_store demo_env "''src/util.js''" "''export default 1''" demo_project] h3
  have c2: "updateFileContent demo_env ''p2'' ''src/util.js'' ''export default 1'' demo_store =
     (Inl NotFound, demo_store)"
    by blast
  from h1 h2 h3 c1 c2 show ?thesis by blast
qed

text \<open>When the write fails, its error is the outcome and nothing has changed.\<close>

lemma updateFileContent_write_fails:
  "find_project i (projects st) = Some project \<Longrightarrow>
   \<not> fs_ok env (WriteTextFile (p_path project @ ''/'' @ filePath) content) \<Longrightarrow>
   updateFileContent env i filePath content st =
     (Inl (IOError (WriteTextFile (p_path project @ ''/'' @ filePath) content)), st)"
  by (simp add: updateFileContent_def full_path_def)


lemma stopProject_keeps:
  "find_project i (projects st) = Some p \<Longrightarrow>
   \<exists>p1. find_project i (projects (snd (stopProject i st))) = Some p1"
  by (simp add: stopProject_def set_status_def find_project_update split: option.splits)

lemma stopProject_outcome:
  "find_project i (projects st) = Some p \<Longrightarrow>
   fst (stopProject i st) = None \<or> fst (stopProject i st) = Some (Inr ''Project stopped'')"
  by (simp add: stopProject_def split: option.splits)















lemma write_files_ok:
  assumes "\<forall>op. fs_ok env op"
  shows "write_files env root files log =
           log @ concat (map (\<lambda>f. [Mkdir (dir_part (root @ ''/'' @ f_path f)),
                                   WriteTextFile (root @ ''/'' @ f_path f) (f_content f)]) files)"
  using assms
  by (induction files arbitrary: log) (simp_all add: write_file_def full_path_def Let_def)

lemma split_on_append:
  "sep \<notin> set a \<Longrightarrow> split_on sep (a @ sep # b) = a # split_on sep b"
  by (induction a) auto

lemma word_char_segment:
  assumes "i \<noteq> []" and "list_all is_word_char i"
  shows "CHR ''/'' \<notin> set i \<and> i \<noteq> ''.'' \<and> i \<noteq> ''..''"
proof -
  have "\<not> is_word_char CHR ''/''" "\<not> is_word_char CHR ''.''"
    by (simp_all add: is_word_char_def)
  with assms(2) show ?thesis
    by (auto simp: list_all_iff)
qed

lemma escape_resolve:
  assumes "i \<noteq> []" and "list_all is_word_char i"
  shows "resolve (''./projects/'' @ i @ ''/'' @ ''../../outside.txt'') = [''outside.txt'']"
proof -
  from word_char_segment [OF assms] have s: "CHR ''/'' \<notin> set i" and d: "i \<noteq> ''.''" "i \<noteq> ''..''"
    by simp_all
  have "split_on CHR ''/'' (i @ CHR ''/'' # ''../../outside.txt'') =
          i # split_on CHR ''/'' ''../../outside.txt''"
    using s by (rule split_on_append)
  then have "split_on CHR ''/'' (''./projects/'' @ i @ ''/'' @ ''../../outside.txt'') =
          [''.'', ''projects'', i, ''..'', ''..'', ''outside.txt'']"
    by simp
  with assms(1) d show ?thesis
    by (simp add: resolve_def)
qed

lemma resolve_projects_root: "resolve ''./projects'' = [''projects'']"
  by (simp add: resolve_def)

text \<open>
  Claim C2. When the file system accepts every operation, each file handed to
  \<open>createOrUpdateProject\<close>, in both branches, and the file of \<open>updateFileContent\<close> is
  written at the root of the project, \<open>/\<close> and its path, whatever the path is; and for a
  project directory named by word characters the path \<open>../../outside.txt\<close> gives a
  target that is not inside \<open>./projects\<close>.
\<close>

theorem write_targets_unchecked:
  assumes "\<forall>op. fs_ok env op"
  shows "fs_log (snd (createOrUpdateProject env files prompt None st)) =
           fs_log st @ Mkdir (''./projects/'' @ generated_id env) #
             concat (map (\<lambda>f. [Mkdir (dir_part (''./projects/'' @ generated_id env @ ''/'' @ f_path f)),
                               WriteTextFile (''./projects/'' @ generated_id env @ ''/'' @ f_path f)
                                 (f_content f)]) files) \<and>
         fs_log (snd (createOrUpdateProject env files prompt (Some existing) st)) =
           fs_log st @
             concat (map (\<lambda>f. [Mkdir (dir_part (p_path existing @ ''/'' @ f_path f)),
                               WriteTextFile (p_path existing @ ''/'' @ f_path f) (f_content f)]) files) \<and>
         (find_project i (projects st) = Some project \<longrightarrow>
            fs_log (snd (updateFileContent env i filePath content st)) =
              fs_log st @ [WriteTextFile (p_path project @ ''/'' @ filePath) content]) \<and>
         (generated_id env \<noteq> [] \<and> list_all is_word_char (generated_id env) \<longrightarrow>
            \<not> lexically_inside ''./projects''
                (''./projects/'' @ generated_id env @ ''/'' @ ''../../outside.txt''))"
proof (intro conjI impI)
  show "fs_log (snd (createOrUpdateProject env files prompt None st)) =
           fs_log st @ Mkdir (''./projects/'' @ generated_id env) #
             concat (map (\<lambda>f. [Mkdir (dir_part (''./projects/'' @ generated_id env @ ''/'' @ f_path f)),
                               WriteTextFile (''./projects/'' @ generated_id env @ ''/'' @ f_path f)
                                 (f_content f)]) files)"
    using assms write_files_ok [OF assms, of "''./projects/'' @ generated_id env"]
    by (simp add: createOrUpdateProject_def Let_def)
  show "fs_log (snd (createOrUpdateProject env files prompt (Some existing) st)) =
           fs_log st @
             concat (map (\<lambda>f. [Mkdir (dir_part (p_path existing @ ''/'' @ f_path f)),
                               WriteTextFile (p_path existing @ ''/'' @ f_path f) (f_content f)]) files)"
    using write_files_ok [OF assms]
    by (simp add: createOrUpdateProject_def Let_def)
next
  assume "find_project i (projects st) = Some project"
  with assms show "fs_log (snd (updateFileContent env i filePath content st)) =
              fs_log st @ [WriteTextFile (p_path project @ ''/'' @ filePath) content]"
    by (simp add: updateFileContent_def full_path_def)
next
  assume "generated_id env \<noteq> [] \<and> list_all is_word_char (generated_id env)"
  then have "resolve (''./projects/'' @ generated_id env @ ''/'' @ ''../../outside.txt'') = [''outside.txt'']"
    by (intro escape_resolve) blast+
  then show "\<not> lexically_inside ''./projects''
                (''./projects/'' @ generated_id env @ ''/'' @ ''../../outside.txt'')"
    by (simp add: lexically_inside_def resolve_projects_root)
qed

theorem write_targets_unchecked_witness:
  "(\<forall>op. fs_ok demo_env op) \<and>
   find_project ''p1'' (projects demo_store) = Some demo_project \<and>
   generated_id demo_env \<noteq> [] \<and> list_all is_word_char (generated_id demo_env) \<and>
   fs_log (snd (createOrUpdateProject demo_env
       [\<lparr>f_name = ''outside.txt'', f_path = ''../../outside.txt'', f_content = ''x'',
         f_language = Str ''text''\<rparr>] ''p'' None demo_store)) =
     [Mkdir ''./projects/abc123'', Mkdir ''./projects/abc123/../..'',
      WriteTextFile ''./projects/abc123/../../outside.txt'' ''x''] \<and>
   fs_log (snd (updateFileContent demo_env ''p1'' ''../../outside.txt'' ''x'' demo_store)) =
     [WriteTextFile ''./projects/p1/../../outside.txt'' ''x''] \<and>
   \<not> lexically_inside ''./projects'' ''./projects/abc123/../../outside.txt''"
proof -
  have h1: "\<forall>op. fs_ok demo_env op"
    by (simp add: demo_env_def)
  have h2: "find_project ''p1'' (projects demo_store) = Some demo_project"
    by (rule demo_find)
  have h3: "generated_id demo_env \<noteq> [] \<and> list_all is_word_char (generated_id demo_env)"
    by (simp add: demo_env_def is_word_char_def)
  have d: "dir_part ''./projects/abc123/../../outside.txt'' = ''./projects/abc123/../..''"
    by (simp add: dir_part_def substring0_def lastIndexOf_def)
  have e: "fs_log demo_store = []" "p_path demo_project = ''./projects/p1''"
    "generated_id demo_env = ''abc123''"
    by (simp_all add: demo_store_def initial_store_def demo_project_def demo_env_def)
  show ?thesis
    using h1 h2 h3
      write_targets_unchecked [OF h1, of
        "[\<lparr>f_name = ''outside.txt'', f_path = ''../../outside.txt'', f_content = ''x'',
           f_language = Str ''text''\<rparr>]" "''p''" demo_store demo_project "''p1''" demo_project
        "''../../outside.txt''" "''x''"]
    by (simp add: d e)
qed

end
